theory Spec2Isabelle
  imports Complex_Main
begin

section \<open>Values and errors\<close>

text \<open>
  Python floats are modelled as exact reals, with two exceptions made where a statement
  depends on rounding: the body of the simulator loop is also given with every operation
  rounded to double precision, and the library's mean and standard deviation of the
  returns are parameters of the Sharpe ratio. Overflow and infinities are outside the
  model. A missing value (NaN in a pandas column) is \<open>None\<close> in a \<open>real option\<close>.
  Python's \<open>/\<close> on floats raises at a zero divisor; every raise of the source is a value
  of \<open>error\<close>.
\<close>

datatype error = ValueError string | ZeroDivisionError | UnboundLocalError | KeyError string

definition truediv :: "real \<Rightarrow> real \<Rightarrow> error + real" where
  "truediv a b = (if b = 0 then Inl ZeroDivisionError else Inr (a / b))"

section \<open>The enhanced simulator: the loop of \<open>EnhancedBollingerStrategy.run\<close>\<close>

text \<open>
  The local variables of the loop that survive an iteration. \<open>position\<close> is a Python
  int: 0 is flat, 1 is long, -1 is short.
\<close>

record sim_state =
  cash :: real
  position :: int
  entry_price :: real
  shares :: real

text \<open>The five values read from the row of \<open>test_data\<close> at each iteration.\<close>

record bar =
  pred_wma :: real
  upper :: real
  lower :: real
  atr :: real
  close :: real

text \<open>
  The \<open>if\<close>/\<open>elif\<close> chain of the loop body. In the two entry branches \<open>shares\<close> is
  computed by a division that raises when \<open>close\<close> is zero; \<open>cash\<close> is assigned after it.
\<close>

definition transition :: "real \<Rightarrow> sim_state \<Rightarrow> bar \<Rightarrow> error + sim_state" where
  "transition initial_capital s b =
     (if position s = 0 \<and> pred_wma b \<le> lower b then
        (case truediv (cash s) (close b) of
           Inl e \<Rightarrow> Inl e
         | Inr q \<Rightarrow> Inr (s\<lparr>position := 1, entry_price := close b, shares := q, cash := 0\<rparr>))
      else if position s = 0 \<and> pred_wma b \<ge> upper b then
        (case truediv initial_capital (close b) of
           Inl e \<Rightarrow> Inl e
         | Inr q \<Rightarrow> Inr (s\<lparr>position := - 1, entry_price := close b, shares := q,
                            cash := initial_capital + q * close b\<rparr>))
      else if position s = 1 then
        (let stop_loss = entry_price s - 3 * atr b in
         if pred_wma b < stop_loss \<or> pred_wma b > upper b
         then Inr (s\<lparr>position := 0, cash := shares s * close b, shares := 0\<rparr>)
         else Inr s)
      else if position s = - 1 then
        (let stop_loss = entry_price s + 3 * atr b in
         if pred_wma b > stop_loss \<or> pred_wma b < lower b
         then Inr (s\<lparr>position := 0, cash := cash s - shares s * close b, shares := 0\<rparr>)
         else Inr s)
      else Inr s)"

text \<open>
  The second chain assigns \<open>curr_val\<close>. It has no \<open>else\<close>: for a position other than
  0, 1 and -1 the variable keeps its previous value, and is unbound (\<open>None\<close>) if it was
  never assigned.
\<close>

definition valuation :: "sim_state \<Rightarrow> bar \<Rightarrow> real option \<Rightarrow> real option" where
  "valuation s b curr_val =
     (if position s = 0 then Some (cash s)
      else if position s = 1 then Some (shares s * close b)
      else if position s = - 1 then Some (cash s - shares s * close b)
      else curr_val)"

text \<open>
  One iteration: the transition, the valuation, and the append to \<open>portfolio_values\<close>
  (reading an unbound \<open>curr_val\<close> raises). The loop state is the simulator state, the
  current \<open>curr_val\<close> and the list built so far.
\<close>

type_synonym loop_state = "sim_state \<times> real option \<times> real list"

definition loop_body :: "real \<Rightarrow> loop_state \<Rightarrow> bar \<Rightarrow> error + loop_state" where
  "loop_body initial_capital st b =
     (case st of (s, curr_val, portfolio_values) \<Rightarrow>
        (case transition initial_capital s b of
           Inl e \<Rightarrow> Inl e
         | Inr s' \<Rightarrow>
             (case valuation s' b curr_val of
                None \<Rightarrow> Inl UnboundLocalError
              | Some v \<Rightarrow> Inr (s', Some v, portfolio_values @ [v]))))"

fun simulate :: "real \<Rightarrow> loop_state \<Rightarrow> bar list \<Rightarrow> error + loop_state" where
  "simulate initial_capital st [] = Inr st"
| "simulate initial_capital st (b # bs) =
     (case loop_body initial_capital st b of
        Inl e \<Rightarrow> Inl e
      | Inr st' \<Rightarrow> simulate initial_capital st' bs)"

text \<open>The assignments before the loop.\<close>

definition init_state :: "real \<Rightarrow> loop_state" where
  "init_state initial_capital =
     (\<lparr>cash = initial_capital, position = 0, entry_price = 0, shares = 0\<rparr>, None, [])"


section \<open>Columns: the pandas operations the indicators use\<close>

text \<open>
  A column (a pandas Series of floats) is a list of cells, \<open>None\<close> for NaN. The
  operations below are the library's, written out pointwise: \<open>shift\<close> moves the values
  by a number of rows and fills with NaN, arithmetic on two columns propagates NaN, a
  rolling window of size \<open>n\<close> has a value only from row \<open>n - 1\<close> on and only when every
  cell in the window is defined (the default \<open>min_periods\<close> is the window size), and
  the row-wise maximum of a frame skips NaN (the default \<open>skipna=True\<close>).
\<close>

type_synonym series = "real option list"

definition shift :: "int \<Rightarrow> series \<Rightarrow> series" where
  "shift periods xs =
     map (\<lambda>t. let j = int t - periods
              in if 0 \<le> j \<and> j < int (length xs) then xs ! nat j else None)
         [0..<length xs]"

definition binop :: "(real \<Rightarrow> real \<Rightarrow> real) \<Rightarrow> real option \<Rightarrow> real option \<Rightarrow> real option" where
  "binop f x y =
     (case x of None \<Rightarrow> None
      | Some a \<Rightarrow> (case y of None \<Rightarrow> None | Some b \<Rightarrow> Some (f a b)))"

definition col_op :: "(real \<Rightarrow> real \<Rightarrow> real) \<Rightarrow> series \<Rightarrow> series \<Rightarrow> series" where
  "col_op f xs ys = map (\<lambda>t. binop f (xs ! t) (ys ! t)) [0..<min (length xs) (length ys)]"

definition window :: "nat \<Rightarrow> series \<Rightarrow> nat \<Rightarrow> real list option" where
  "window n xs t =
     (if n = 0 \<or> t + 1 < n then None else those (map ((!) xs) [t + 1 - n..<t + 1]))"

definition rolling :: "nat \<Rightarrow> (real list \<Rightarrow> real option) \<Rightarrow> series \<Rightarrow> series" where
  "rolling n f xs = map (\<lambda>t. Option.bind (window n xs t) f) [0..<length xs]"

definition mean :: "real list \<Rightarrow> real option" where
  "mean w = (if w = [] then None else Some (sum_list w / real (length w)))"

text \<open>The sample standard deviation (\<open>ddof=1\<close>): undefined for fewer than two values.\<close>

definition std :: "real list \<Rightarrow> real option" where
  "std w =
     (if length w < 2 then None
      else Some (sqrt (sum_list (map (\<lambda>x. (x - sum_list w / real (length w))\<^sup>2) w)
                       / real (length w - 1))))"

definition row_max :: "real option list \<Rightarrow> real option" where
  "row_max cells =
     (case List.map_filter (\<lambda>c. c) cells of [] \<Rightarrow> None | v # vs \<Rightarrow> Some (fold max vs v))"

section \<open>Indicators\<close>

definition calculate_wma_3 :: "series \<Rightarrow> series" where
  "calculate_wma_3 series =
     (let weights = [1, 2, 3]; sum_weights = sum_list weights
      in rolling 3 (\<lambda>x. Some (sum_list (map2 (*) weights x) / sum_weights)) series)"

text \<open>
  \<open>calculate_bollinger_bands\<close> reads the \<open>Close\<close> column and adds four columns,
  returned here in the order \<open>MA\<close>, \<open>STD\<close>, \<open>Upper_Track\<close>, \<open>Lower_Track\<close>.
\<close>

definition calculate_bollinger_bands :: "series \<Rightarrow> nat \<Rightarrow> real \<Rightarrow> series \<times> series \<times> series \<times> series" where
  "calculate_bollinger_bands close_col d k =
     (let ma = rolling d mean close_col;
          sd = rolling d std close_col;
          k_sd = map (map_option ((*) k)) sd
      in (ma, sd, col_op (+) ma k_sd, col_op (-) ma k_sd))"

definition true_range :: "series \<Rightarrow> series \<Rightarrow> series \<Rightarrow> series" where
  "true_range high low close_col =
     (let high_low = col_op (-) high low;
          high_close = map (map_option abs) (col_op (-) high (shift 1 close_col));
          low_close = map (map_option abs) (col_op (-) low (shift 1 close_col))
      in map (\<lambda>t. row_max [high_low ! t, high_close ! t, low_close ! t])
             [0..<min (length high_low) (min (length high_close) (length low_close))])"

definition calculate_atr :: "series \<Rightarrow> series \<Rightarrow> series \<Rightarrow> nat \<Rightarrow> series" where
  "calculate_atr high low close_col n = rolling n mean (true_range high low close_col)"


section \<open>The classical strategy: \<open>ClassicalBollingerStrategy.run\<close>\<close>

text \<open>
  The classical loop runs on a frame that was not filtered, so its floats can be NaN:
  a comparison with NaN is false, arithmetic with NaN is NaN, and \<open>/\<close> raises at a
  zero divisor whatever the dividend.
\<close>

definition fle :: "real option \<Rightarrow> real option \<Rightarrow> bool" where
  "fle x y = (case x of None \<Rightarrow> False | Some a \<Rightarrow> (case y of None \<Rightarrow> False | Some b \<Rightarrow> a \<le> b))"

definition fge :: "real option \<Rightarrow> real option \<Rightarrow> bool" where
  "fge x y = (case x of None \<Rightarrow> False | Some a \<Rightarrow> (case y of None \<Rightarrow> False | Some b \<Rightarrow> a \<ge> b))"

definition ftruediv :: "real option \<Rightarrow> real option \<Rightarrow> error + real option" where
  "ftruediv x y = (if y = Some 0 then Inl ZeroDivisionError else Inr (binop (/) x y))"

text \<open>
  The loop state is \<open>cash\<close>, \<open>position\<close>, \<open>shares\<close> and \<open>portfolio_values\<close>; a row gives
  \<open>close\<close>, \<open>upper\<close> and \<open>lower\<close>.
\<close>

type_synonym classical_state = "real option \<times> int \<times> real option \<times> real option list"

definition classical_body ::
  "classical_state \<Rightarrow> real option \<times> real option \<times> real option \<Rightarrow> error + classical_state" where
  "classical_body st r =
     (case st of (cash0, position0, shares0, portfolio_values) \<Rightarrow>
      case r of (close0, upper0, lower0) \<Rightarrow>
        (case (if position0 = 0 \<and> fle close0 lower0 then
                 (case ftruediv cash0 close0 of
                    Inl e \<Rightarrow> Inl e
                  | Inr q \<Rightarrow> Inr (Some 0, 1, q))
               else if position0 = 1 \<and> fge close0 upper0 then
                 Inr (binop (*) shares0 close0, 0, Some 0)
               else Inr (cash0, position0, shares0)) of
           Inl e \<Rightarrow> Inl e
         | Inr (cash1, position1, shares1) \<Rightarrow>
             Inr (cash1, position1, shares1,
                  portfolio_values @ [binop (+) cash1 (binop (*) shares1 close0)])))"

fun classical_loop ::
  "classical_state \<Rightarrow> (real option \<times> real option \<times> real option) list \<Rightarrow> error + classical_state" where
  "classical_loop st [] = Inr st"
| "classical_loop st (r # rs) =
     (case classical_body st r of Inl e \<Rightarrow> Inl e | Inr st' \<Rightarrow> classical_loop st' rs)"

definition classical_rows :: "series \<Rightarrow> nat \<Rightarrow> real \<Rightarrow> (real option \<times> real option \<times> real option) list" where
  "classical_rows close_col d k =
     (case calculate_bollinger_bands close_col d k of
        (ma, sd, upper_track, lower_track) \<Rightarrow>
          map (\<lambda>t. (close_col ! t, upper_track ! t, lower_track ! t)) [0..<length close_col])"

text \<open>
  \<open>classical_run capital d k close_col\<close> is \<open>run\<close> of a strategy built with
  \<open>initial_capital = capital\<close> and the window \<open>d\<close> and multiplier \<open>k\<close>, on a frame whose
  \<open>Close\<close> column is \<open>close_col\<close>; the result is the final loop state, whose last
  component is the \<open>Portfolio_Value\<close> column.
\<close>

definition classical_run :: "real \<Rightarrow> nat \<Rightarrow> real \<Rightarrow> series \<Rightarrow> error + classical_state" where
  "classical_run capital d k close_col =
     classical_loop (Some capital, 0, Some 0, []) (classical_rows close_col d k)"

section \<open>The Sharpe ratio\<close>








section \<open>The feature builder: \<open>EnhancedBollingerStrategy.prepare_features\<close>\<close>

text \<open>
  A frame is a list of rows. A row of the input has the date (the index), the five
  price columns and whatever other columns the data source delivered; the cell type is
  \<open>real option\<close> before \<open>dropna\<close> and \<open>real\<close> after it.
\<close>

record 'a price_row =
  date :: nat
  Open :: 'a
  High :: 'a
  Low :: 'a
  Close :: 'a
  Volume :: 'a
  others :: "'a list"

record 'a feature_row = "'a price_row" +
  WMA_3 :: 'a
  MA :: 'a
  STD :: 'a
  Upper_Track :: 'a
  Lower_Track :: 'a
  ATR :: 'a
  lags :: "'a list"
  Target_Diff :: 'a

fun str :: "nat \<Rightarrow> string" where
  "str n = (if n < 10 then [''0123456789'' ! n] else str (n div 10) @ [''0123456789'' ! (n mod 10)])"

definition feature_cols :: "string list" where
  "feature_cols =
     [''Open'', ''High'', ''Low'', ''Close'', ''Volume''] @ map (\<lambda>i. ''WMA_3_lag_'' @ str i) [0..<6]"

text \<open>The frame of \<open>prepare_features\<close> after the last column assignment, before \<open>dropna\<close>.\<close>

definition feature_frame :: "real option price_row list \<Rightarrow> real option feature_row list" where
  "feature_frame df =
     (let close_col = map Close df;
          wma = calculate_wma_3 close_col;
          atr_col = calculate_atr (map High df) (map Low df) close_col 20;
          lag_cols = map (\<lambda>i. shift (int i) wma) [0..<6];
          target = col_op (-) (shift (- 1) wma) wma
      in case calculate_bollinger_bands close_col 20 3 of
           (ma, sd, upper_track, lower_track) \<Rightarrow>
             map (\<lambda>t. \<lparr>date = date (df ! t), Open = Open (df ! t), High = High (df ! t),
                       Low = Low (df ! t), Close = Close (df ! t), Volume = Volume (df ! t),
                       others = others (df ! t),
                       WMA_3 = wma ! t, MA = ma ! t, STD = sd ! t,
                       Upper_Track = upper_track ! t, Lower_Track = lower_track ! t,
                       ATR = atr_col ! t, lags = map (\<lambda>c. c ! t) lag_cols,
                       Target_Diff = target ! t\<rparr>)
                 [0..<length df])"

text \<open>\<open>dropna\<close> keeps the rows in which every column is defined.\<close>

definition row_defined :: "real option feature_row \<Rightarrow> bool" where
  "row_defined r \<longleftrightarrow>
     Open r \<noteq> None \<and> High r \<noteq> None \<and> Low r \<noteq> None \<and> Close r \<noteq> None \<and> Volume r \<noteq> None \<and>
     list_all (\<lambda>c. c \<noteq> None) (others r) \<and>
     WMA_3 r \<noteq> None \<and> MA r \<noteq> None \<and> STD r \<noteq> None \<and> Upper_Track r \<noteq> None \<and>
     Lower_Track r \<noteq> None \<and> ATR r \<noteq> None \<and> list_all (\<lambda>c. c \<noteq> None) (lags r) \<and>
     Target_Diff r \<noteq> None"

definition cells :: "real option feature_row \<Rightarrow> real feature_row" where
  "cells r =
     \<lparr>date = date r, Open = the (Open r), High = the (High r), Low = the (Low r),
      Close = the (Close r), Volume = the (Volume r), others = map the (others r),
      WMA_3 = the (WMA_3 r), MA = the (MA r), STD = the (STD r),
      Upper_Track = the (Upper_Track r), Lower_Track = the (Lower_Track r),
      ATR = the (ATR r), lags = map the (lags r), Target_Diff = the (Target_Diff r)\<rparr>"

definition dropna :: "real option feature_row list \<Rightarrow> real feature_row list" where
  "dropna frame = map cells (filter row_defined frame)"

definition prepare_features :: "real option price_row list \<Rightarrow> real feature_row list \<times> string list" where
  "prepare_features df = (dropna (feature_frame df), feature_cols)"

section \<open>The enhanced strategy: \<open>EnhancedBollingerStrategy.run\<close>\<close>

text \<open>Selecting columns by name; a name the frame does not have raises \<open>KeyError\<close>.\<close>

definition getitem :: "'a feature_row \<Rightarrow> string \<Rightarrow> 'a option" where
  "getitem r c =
     map_of ([(''Open'', Open r), (''High'', High r), (''Low'', Low r), (''Close'', Close r),
              (''Volume'', Volume r), (''WMA_3'', WMA_3 r), (''MA'', MA r), (''STD'', STD r),
              (''Upper_Track'', Upper_Track r), (''Lower_Track'', Lower_Track r),
              (''ATR'', ATR r), (''Target_Diff'', Target_Diff r)]
             @ map (\<lambda>i. (''WMA_3_lag_'' @ str i, lags r ! i)) [0..<length (lags r)]) c"

definition take_columns :: "string list \<Rightarrow> 'a feature_row list \<Rightarrow> error + 'a list list" where
  "take_columns cols frame =
     (case those (map (\<lambda>r. those (map (getitem r) cols)) frame) of
        None \<Rightarrow> Inl (KeyError ''column'')
      | Some X \<Rightarrow> Inr X)"

text \<open>
  The strategy object. The regressor is an external collaborator: \<open>fit\<close> (which may
  raise and otherwise gives the fitted model) and \<open>predict\<close> (one value per feature
  vector) are parameters of \<open>run\<close>.
\<close>

record 'm strategy =
  initial_capital :: real
  model :: 'm

record result_row =
  row :: "real feature_row"
  Predicted_Diff :: real
  Predicted_WMA_Next :: real
  Portfolio_Value :: real

definition read_bar :: "real feature_row \<Rightarrow> real \<Rightarrow> bar" where
  "read_bar r p =
     \<lparr>pred_wma = WMA_3 r + p, upper = Upper_Track r, lower = Lower_Track r,
      atr = ATR r, close = Close r\<rparr>"

definition run ::
  "('m \<Rightarrow> real list list \<Rightarrow> real list \<Rightarrow> error + 'm) \<Rightarrow> ('m \<Rightarrow> real list \<Rightarrow> real) \<Rightarrow>
   'm strategy \<Rightarrow> real option price_row list \<Rightarrow> nat \<Rightarrow> (error + result_row list) \<times> 'm strategy" where
  "run fit predict self df split_date =
     (case prepare_features df of
        (df_processed, cols) \<Rightarrow>
          (let train_data = filter (\<lambda>r. date r < split_date) df_processed;
               test_data = filter (\<lambda>r. date r \<ge> split_date) df_processed
           in if length test_data = 0 then (Inl (ValueError ''No test data available.''), self)
              else
                (case take_columns cols train_data of
                   Inl e \<Rightarrow> (Inl e, self)
                 | Inr X_train \<Rightarrow>
                     (case fit (model self) X_train (map Target_Diff train_data) of
                        Inl e \<Rightarrow> (Inl e, self)
                      | Inr m \<Rightarrow>
                          (case take_columns cols test_data of
                             Inl e \<Rightarrow> (Inl e, self\<lparr>model := m\<rparr>)
                           | Inr X_test \<Rightarrow>
                               (let predicted = map (predict m) X_test;
                                    bars = map2 read_bar test_data predicted
                                in case simulate (initial_capital self)
                                          (init_state (initial_capital self)) bars of
                                     Inl e \<Rightarrow> (Inl e, self\<lparr>model := m\<rparr>)
                                   | Inr (s, curr_val, portfolio_values) \<Rightarrow>
                                       (Inr (map (\<lambda>((r, p), v).
                                                \<lparr>row = r, Predicted_Diff = p,
                                                 Predicted_WMA_Next = WMA_3 r + p,
                                                 Portfolio_Value = v\<rparr>)
                                             (zip (zip test_data predicted) portfolio_values)),
                                        self\<lparr>model := m\<rparr>)))))))"


section \<open>The specification's state machine\<close>







section \<open>The loop body in double precision\<close>

text \<open>
  Python floats are IEEE doubles, and each arithmetic operation gives the double nearest
  to its exact result, ties to even. \<open>round_double\<close> is that rounding on the normal
  range (no overflow, no subnormal numbers): the magnitude is scaled by powers of two
  into the interval from \<open>2 ^ 52\<close> to \<open>2 ^ 53\<close>, rounded to an integer and scaled back.
  \<open>transition_rounded\<close>, \<open>valuation_rounded\<close> and \<open>loop_body_rounded\<close> are the body of
  the loop of the enhanced simulator once more, with a rounding function \<open>rnd\<close> applied
  to the result of every operation; with the identity for \<open>rnd\<close> they are \<open>transition\<close>,
  \<open>valuation\<close> and \<open>loop_body\<close>.
\<close>

fun normalise :: "nat \<Rightarrow> real \<Rightarrow> real \<Rightarrow> real \<times> real" where
  "normalise 0 y f = (y, f)"
| "normalise (Suc k) y f =
     (if y < 2 ^ 52 then normalise k (2 * y) (f / 2)
      else if 2 ^ 53 \<le> y then normalise k (y / 2) (2 * f)
      else (y, f))"

definition round_half_even :: "real \<Rightarrow> int" where
  "round_half_even y =
     (let n = \<lfloor>y\<rfloor>; r = y - of_int n
      in if r < 1 / 2 then n else if 1 / 2 < r then n + 1 else if even n then n else n + 1)"

definition round_double :: "real \<Rightarrow> real" where
  "round_double x =
     (if x = 0 then 0
      else (case normalise 2200 \<bar>x\<bar> 1 of
              (y, f) \<Rightarrow> sgn x * of_int (round_half_even y) * f))"

definition truediv_rounded :: "(real \<Rightarrow> real) \<Rightarrow> real \<Rightarrow> real \<Rightarrow> error + real" where
  "truediv_rounded rnd a b = (if b = 0 then Inl ZeroDivisionError else Inr (rnd (a / b)))"

definition transition_rounded :: "(real \<Rightarrow> real) \<Rightarrow> real \<Rightarrow> sim_state \<Rightarrow> bar \<Rightarrow> error + sim_state" where
  "transition_rounded rnd capital s b =
     (if position s = 0 \<and> pred_wma b \<le> lower b then
        (case truediv_rounded rnd (cash s) (close b) of
           Inl e \<Rightarrow> Inl e
         | Inr q \<Rightarrow> Inr (s\<lparr>position := 1, entry_price := close b, shares := q, cash := 0\<rparr>))
      else if position s = 0 \<and> pred_wma b \<ge> upper b then
        (case truediv_rounded rnd capital (close b) of
           Inl e \<Rightarrow> Inl e
         | Inr q \<Rightarrow> Inr (s\<lparr>position := - 1, entry_price := close b, shares := q,
                            cash := rnd (capital + rnd (q * close b))\<rparr>))
      else if position s = 1 then
        (let stop_loss = rnd (entry_price s - rnd (3 * atr b)) in
         if pred_wma b < stop_loss \<or> pred_wma b > upper b
         then Inr (s\<lparr>position := 0, cash := rnd (shares s * close b), shares := 0\<rparr>)
         else Inr s)
      else if position s = - 1 then
        (let stop_loss = rnd (entry_price s + rnd (3 * atr b)) in
         if pred_wma b > stop_loss \<or> pred_wma b < lower b
         then Inr (s\<lparr>position := 0, cash := rnd (cash s - rnd (shares s * close b)),
                     shares := 0\<rparr>)
         else Inr s)
      else Inr s)"

definition valuation_rounded :: "(real \<Rightarrow> real) \<Rightarrow> sim_state \<Rightarrow> bar \<Rightarrow> real option \<Rightarrow> real option" where
  "valuation_rounded rnd s b curr_val =
     (if position s = 0 then Some (cash s)
      else if position s = 1 then Some (rnd (shares s * close b))
      else if position s = - 1 then Some (rnd (cash s - rnd (shares s * close b)))
      else curr_val)"

definition loop_body_rounded :: "(real \<Rightarrow> real) \<Rightarrow> real \<Rightarrow> loop_state \<Rightarrow> bar \<Rightarrow> error + loop_state" where
  "loop_body_rounded rnd capital st b =
     (case st of (s, curr_val, portfolio_values) \<Rightarrow>
        (case transition_rounded rnd capital s b of
           Inl e \<Rightarrow> Inl e
         | Inr s' \<Rightarrow>
             (case valuation_rounded rnd s' b curr_val of
                None \<Rightarrow> Inl UnboundLocalError
              | Some v \<Rightarrow> Inr (s', Some v, portfolio_values @ [v]))))"

section \<open>Closed forms used in the statements\<close>

text \<open>
  The true range of row \<open>t\<close> of a frame without missing values, and the percentage
  returns \<open>value[t] / value[t-1] - 1\<close> for \<open>t \<ge> 1\<close> of a value series (an infinity at a
  zero divisor, the undefined \<open>0 / 0\<close> left out), as explicit formulas; the theorems
  below compare what the code computes with them.
\<close>

definition true_range_value :: "real list \<Rightarrow> real list \<Rightarrow> real list \<Rightarrow> nat \<Rightarrow> real" where
  "true_range_value hs ls cs t =
     (if t = 0 then hs ! 0 - ls ! 0
      else max (hs ! t - ls ! t) (max \<bar>hs ! t - cs ! (t - 1)\<bar> \<bar>ls ! t - cs ! (t - 1)\<bar>))"


text \<open>
  For the feature builder: a row of the input without missing values; a row of the frame
  whose eleven features and target are all defined, which is the set of rows the
  specification says is returned; the feature vector of a row, in the order of
  \<open>feature_cols\<close>; and a frame of \<open>n\<close> bars dated \<open>0\<close> to \<open>n - 1\<close> whose five price
  columns are all \<open>p\<close>, used as a concrete input.
\<close>

definition price_defined :: "real option price_row \<Rightarrow> bool" where
  "price_defined r \<longleftrightarrow>
     Open r \<noteq> None \<and> High r \<noteq> None \<and> Low r \<noteq> None \<and> Close r \<noteq> None \<and> Volume r \<noteq> None \<and>
     list_all (\<lambda>c. c \<noteq> None) (others r)"

definition features_and_target_defined :: "real option feature_row \<Rightarrow> bool" where
  "features_and_target_defined r \<longleftrightarrow>
     list_all (\<lambda>c. case getitem r c of Some (Some v) \<Rightarrow> True | _ \<Rightarrow> False) feature_cols \<and>
     Target_Diff r \<noteq> None"

definition features :: "'a feature_row \<Rightarrow> 'a list" where
  "features r = [Open r, High r, Low r, Close r, Volume r] @ lags r"

definition flat_bars :: "real \<Rightarrow> nat \<Rightarrow> real option price_row list" where
  "flat_bars p n =
     map (\<lambda>t. \<lparr>date = t, Open = Some p, High = Some p, Low = Some p, Close = Some p,
               Volume = Some p, others = []\<rparr>) [0..<n]"

text \<open>
  The two sides of the split as the specification words them (rows strictly before the
  cutoff, rows on or after it), and a regressor that learns nothing and predicts no
  change, used as a concrete collaborator.
\<close>

definition training_set :: "real option price_row list \<Rightarrow> nat \<Rightarrow> real feature_row list" where
  "training_set df split_date = filter (\<lambda>r. date r < split_date) (fst (prepare_features df))"

definition evaluation_set :: "real option price_row list \<Rightarrow> nat \<Rightarrow> real feature_row list" where
  "evaluation_set df split_date = filter (\<lambda>r. split_date \<le> date r) (fst (prepare_features df))"

definition still_fit :: "unit \<Rightarrow> real list list \<Rightarrow> real list \<Rightarrow> error + unit" where
  "still_fit m X y = Inr m"

definition still_predict :: "unit \<Rightarrow> real list \<Rightarrow> real" where
  "still_predict m x = 0"

section \<open>The simulator loop: transitions, invariant, refinement\<close>

lemma simulate_append:
  "simulate ic st (xs @ ys) =
     (case simulate ic st xs of Inl e \<Rightarrow> Inl e | Inr st' \<Rightarrow> simulate ic st' ys)"
  by (induction xs arbitrary: st) (auto split: sum.splits)

lemma transition_cases:
  "transition ic s b =
     (if position s = 0 \<and> pred_wma b \<le> lower b then
        (if close b = 0 then Inl ZeroDivisionError
         else Inr (s\<lparr>position := 1, entry_price := close b, shares := cash s / close b, cash := 0\<rparr>))
      else if position s = 0 \<and> pred_wma b \<ge> upper b then
        (if close b = 0 then Inl ZeroDivisionError
         else Inr (s\<lparr>position := - 1, entry_price := close b, shares := ic / close b,
                            cash := ic + ic / close b * close b\<rparr>))
      else if position s = 1 \<and> (pred_wma b < entry_price s - 3 * atr b \<or> pred_wma b > upper b) then
         Inr (s\<lparr>position := 0, cash := shares s * close b, shares := 0\<rparr>)
      else if position s = - 1 \<and> (pred_wma b > entry_price s + 3 * atr b \<or> pred_wma b < lower b) then
         Inr (s\<lparr>position := 0, cash := cash s - shares s * close b, shares := 0\<rparr>)
      else Inr s)"
  unfolding transition_def truediv_def Let_def by simp


lemma transition_position:
  assumes "transition ic s b = Inr s'" and "position s \<in> {0, 1, - 1}"
  shows "position s' \<in> {0, 1, - 1}"
  using assms unfolding transition_cases
  by (auto split: if_splits)

lemma transition_flat_shares:
  assumes "transition ic s b = Inr s'" and "position s = 0 \<longrightarrow> shares s = 0" and "position s' = 0"
  shows "shares s' = 0"
  using assms unfolding transition_cases
  by (auto split: if_splits)

lemma transition_total:
  assumes "close b \<noteq> 0"
  shows "\<exists>s'. transition ic s b = Inr s'"
  using assms unfolding transition_cases by simp








lemma valuation_known:
  assumes "position s \<in> {0, 1, - 1}"
  shows "valuation s b cv =
     Some (if position s = 0 then cash s
           else if position s = 1 then shares s * close b
           else cash s - shares s * close b)"
  using assms unfolding valuation_def by auto

lemma loop_body_Inr:
  assumes "loop_body ic (s, cv, pv) b = Inr (s', cv', pv')"
  shows "transition ic s b = Inr s' \<and>
         (\<exists>v. valuation s' b cv = Some v \<and> cv' = Some v \<and> pv' = pv @ [v])"
  using assms unfolding loop_body_def
  by (auto split: sum.splits option.splits)

lemma loop_body_total:
  assumes "close b \<noteq> 0" and "position s \<in> {0, 1, - 1}"
  shows "\<exists>s' v. loop_body ic (s, cv, pv) b = Inr (s', Some v, pv @ [v]) \<and> position s' \<in> {0, 1, - 1}"
proof -
  from transition_total [OF assms(1)] obtain s' where t: "transition ic s b = Inr s'" by blast
  have p: "position s' \<in> {0, 1, - 1}" using t assms(2) by (rule transition_position)
  from valuation_known [OF p] obtain v where "valuation s' b cv = Some v" by blast
  with t p show ?thesis unfolding loop_body_def by simp
qed

lemma simulate_total_gen:
  assumes "\<forall>b \<in> set bars. close b \<noteq> 0" and "position s \<in> {0, 1, - 1}"
  shows "\<exists>r. simulate ic (s, cv, pv) bars = Inr r"
  using assms
proof (induction bars arbitrary: s cv pv)
  case Nil
  then show ?case by simp
next
  case (Cons b bars)
  from Cons.prems have "close b \<noteq> 0" by simp
  from loop_body_total [OF this Cons.prems(2)] obtain s' v
    where lb: "loop_body ic (s, cv, pv) b = Inr (s', Some v, pv @ [v])"
      and p: "position s' \<in> {0, 1, - 1}" by blast
  from Cons.prems have "\<forall>b \<in> set bars. close b \<noteq> 0" by simp
  from Cons.IH [OF this p] obtain r where "simulate ic (s', Some v, pv @ [v]) bars = Inr r" by blast
  with lb have "simulate ic (s, cv, pv) (b # bars) = Inr r" by simp
  then show ?case ..
qed

lemma simulate_Cons_Inr:
  assumes "simulate ic (s, cv, pv) (b # bars) = Inr r"
  obtains s1 v where "transition ic s b = Inr s1" and "valuation s1 b cv = Some v"
    and "simulate ic (s1, Some v, pv @ [v]) bars = Inr r"
proof -
  from assms obtain st1 where lb: "loop_body ic (s, cv, pv) b = Inr st1"
    and rest: "simulate ic st1 bars = Inr r"
    by (auto split: sum.splits)
  obtain s1 cv1 pv1 where st1: "st1 = (s1, cv1, pv1)" by (cases st1) auto
  from loop_body_Inr [OF lb [unfolded st1]] obtain v where
    "transition ic s b = Inr s1" "valuation s1 b cv = Some v" "cv1 = Some v" "pv1 = pv @ [v]"
    by blast
  with rest st1 that show thesis by simp
qed

lemma simulate_inv:
  assumes "simulate ic (s, cv, pv) bars = Inr (s', cv', pv')"
    and "position s \<in> {0, 1, - 1}" and "position s = 0 \<longrightarrow> shares s = 0"
  shows "position s' \<in> {0, 1, - 1} \<and> (position s' = 0 \<longrightarrow> shares s' = 0)"
  using assms
proof (induction bars arbitrary: s cv pv)
  case Nil
  then show ?case by simp
next
  case (Cons b bars)
  from Cons.prems(1) obtain s1 v where t: "transition ic s b = Inr s1"
    and rest: "simulate ic (s1, Some v, pv @ [v]) bars = Inr (s', cv', pv')"
    by (rule simulate_Cons_Inr)
  have p: "position s1 \<in> {0, 1, - 1}" using t Cons.prems(2) by (rule transition_position)
  have q: "position s1 = 0 \<longrightarrow> shares s1 = 0"
    using transition_flat_shares [OF t Cons.prems(3)] by blast
  from Cons.IH [OF rest p q] show ?case .
qed


lemma simulate_values:
  assumes "simulate ic (s, cv, pv) bars = Inr (s', cv', pv')"
  shows "\<exists>vs. pv' = pv @ vs \<and> length vs = length bars"
  using assms
proof (induction bars arbitrary: s cv pv)
  case Nil
  then show ?case by simp
next
  case (Cons b bars)
  from Cons.prems(1) obtain s1 v where
    rest: "simulate ic (s1, Some v, pv @ [v]) bars = Inr (s', cv', pv')"
    by (rule simulate_Cons_Inr)
  from Cons.IH [OF rest] obtain vs where "pv' = (pv @ [v]) @ vs" "length vs = length bars" by blast
  then have "pv' = pv @ (v # vs) \<and> length (v # vs) = length (b # bars)" by simp
  then show ?case by blast
qed

lemma simulate_prefix:
  assumes "simulate ic st bars = Inr r"
  shows "\<exists>r'. simulate ic st (take n bars) = Inr r' \<and> simulate ic r' (drop n bars) = Inr r"
proof -
  have "simulate ic st (take n bars @ drop n bars) = Inr r" using assms by simp
  then show ?thesis unfolding simulate_append by (auto split: sum.splits)
qed




text \<open>
  Claim C4. After any number of bars of a run the position is one of 0 (flat), 1 (long)
  and -1 (short), and \<open>shares\<close> is zero whenever the position is flat.
\<close>
theorem enhanced_state_invariant:
  assumes "simulate ic (init_state ic) bars = Inr (s, cv, pv)"
  shows "\<exists>s' cv' pv'. simulate ic (init_state ic) (take n bars) = Inr (s', cv', pv') \<and>
           position s' \<in> {0, 1, - 1} \<and> (position s' = 0 \<longrightarrow> shares s' = 0)"
proof -
  from simulate_prefix [OF assms] obtain r
    where "simulate ic (init_state ic) (take n bars) = Inr r" by blast
  moreover obtain s' cv' pv' where r: "r = (s', cv', pv')" by (cases r) auto
  ultimately have run: "simulate ic (fst (init_state ic), None, []) (take n bars) = Inr (s', cv', pv')"
    by (simp add: init_state_def)
  have "position s' \<in> {0, 1, - 1} \<and> (position s' = 0 \<longrightarrow> shares s' = 0)"
    by (rule simulate_inv [OF run]) (simp_all add: init_state_def)
  with run show ?thesis by (auto simp: init_state_def)
qed

theorem enhanced_state_invariant_witness:
  "simulate 100 (init_state 100)
     [\<lparr>pred_wma = 1, upper = 3, lower = 2, atr = 1, close = 4\<rparr>,
      \<lparr>pred_wma = 10, upper = 3, lower = 2, atr = 1, close = 5\<rparr>]
     = Inr (\<lparr>cash = 125, position = 0, entry_price = 4, shares = 0\<rparr>, Some 125, [100, 125]) \<and>
   (\<exists>s' cv' pv'.
      simulate 100 (init_state 100)
        (take 1 [\<lparr>pred_wma = 1, upper = 3, lower = 2, atr = 1, close = 4\<rparr>,
                 \<lparr>pred_wma = 10, upper = 3, lower = 2, atr = 1, close = 5\<rparr>])
        = Inr (s', cv', pv') \<and>
      position s' \<in> {0, 1, - 1} \<and> (position s' = 0 \<longrightarrow> shares s' = 0))"
proof -
  have run: "simulate 100 (init_state 100)
     [\<lparr>pred_wma = 1, upper = 3, lower = 2, atr = 1, close = 4\<rparr>,
      \<lparr>pred_wma = 10, upper = 3, lower = 2, atr = 1, close = 5\<rparr>]
     = Inr (\<lparr>cash = 125, position = 0, entry_price = 4, shares = 0\<rparr>, Some 125, [100, 125])"
    by (simp add: init_state_def loop_body_def transition_def truediv_def valuation_def)
  from enhanced_state_invariant [OF run, of 1] run show ?thesis by blast
qed

lemma transition_exact: "transition_rounded (\<lambda>x. x) ic s b = transition ic s b"
  by (simp add: transition_rounded_def transition_def truediv_rounded_def truediv_def)

lemma valuation_exact: "valuation_rounded (\<lambda>x. x) s b cv = valuation s b cv"
  by (simp add: valuation_rounded_def valuation_def)

lemma loop_body_exact: "loop_body_rounded (\<lambda>x. x) ic st b = loop_body ic st b"
  by (cases st)
    (simp add: loop_body_rounded_def loop_body_def transition_exact valuation_exact
      split: sum.splits)

lemma loop_body_rounded_Inr:
  assumes "loop_body_rounded rnd ic (s, cv, pv) b = Inr (s', cv', pv')"
  shows "transition_rounded rnd ic s b = Inr s' \<and>
         (\<exists>v. valuation_rounded rnd s' b cv = Some v \<and> cv' = Some v \<and> pv' = pv @ [v])"
  using assms unfolding loop_body_rounded_def
  by (auto split: sum.splits option.splits)

lemma short_entry_rounded:
  assumes "loop_body_rounded rnd ic (s, cv, pv) b = Inr (s', cv', pv')"
    and "position s = 0" and "position s' = - 1"
  shows "shares s' = rnd (ic / close b) \<and> cash s' = rnd (ic + rnd (shares s' * close b)) \<and>
         pv' = pv @ [rnd (cash s' - rnd (shares s' * close b))]"
proof -
  from loop_body_rounded_Inr [OF assms(1)] obtain v
    where t: "transition_rounded rnd ic s b = Inr s'"
      and v: "valuation_rounded rnd s' b cv = Some v" and pv': "pv' = pv @ [v]" by blast
  from t assms(2,3) have sh: "shares s' = rnd (ic / close b)"
    and c: "cash s' = rnd (ic + rnd (rnd (ic / close b) * close b))"
    unfolding transition_rounded_def truediv_rounded_def by (auto split: if_splits)
  from v assms(3) have "v = rnd (cash s' - rnd (shares s' * close b))"
    unfolding valuation_rounded_def by simp
  with sh c pv' show ?thesis by simp
qed

lemma short_entry_exact:
  assumes "loop_body ic (s, cv, pv) b = Inr (s', cv', pv')"
    and "position s = 0" and "position s' = - 1"
  shows "shares s' = ic / close b \<and> cash s' = ic + shares s' * close b \<and>
         cash s' = 2 * ic \<and> pv' = pv @ [ic]"
proof -
  from loop_body_Inr [OF assms(1)] obtain v where t: "transition ic s b = Inr s'"
    and v: "valuation s' b cv = Some v" and pv': "pv' = pv @ [v]" by blast
  from t assms(2,3) have nz: "close b \<noteq> 0" and sh: "shares s' = ic / close b"
    and c: "cash s' = ic + ic / close b * close b"
    unfolding transition_cases by (auto split: if_splits)
  from nz sh c have c2: "cash s' = 2 * ic" by simp
  from v assms(3) have "v = cash s' - shares s' * close b" unfolding valuation_def by simp
  with nz sh c2 have "v = ic" by simp
  with sh c c2 pv' show ?thesis by simp
qed

lemma normalise_numeral:
  "normalise (numeral n) y f =
     (if y < 2 ^ 52 then normalise (pred_numeral n) (2 * y) (f / 2)
      else if 2 ^ 53 \<le> y then normalise (pred_numeral n) (y / 2) (2 * f)
      else (y, f))"
  by (simp add: numeral_eq_Suc)

text \<open>
  Claim C10, as amended. An iteration that goes from flat to short sets \<open>shares\<close> to the
  initial capital divided by the close and \<open>cash\<close> to the initial capital plus
  \<open>shares * close\<close>, and appends \<open>cash - shares * close\<close> to \<open>portfolio_values\<close>: none of
  the three depends on the cash held before, whatever the rounding of the operations.
  In exact arithmetic the new cash is twice the initial capital and the appended value
  is the initial capital; in double precision they are these values up to rounding.
\<close>

theorem short_entry_resets_equity:
  "(loop_body_rounded rnd ic (s, cv, pv) b = Inr (s', cv', pv') \<and>
    position s = 0 \<and> position s' = - 1 \<longrightarrow>
      shares s' = rnd (ic / close b) \<and> cash s' = rnd (ic + rnd (shares s' * close b)) \<and>
      pv' = pv @ [rnd (cash s' - rnd (shares s' * close b))]) \<and>
   (loop_body ic (s, cv, pv) b = Inr (s', cv', pv') \<and> position s = 0 \<and> position s' = - 1 \<longrightarrow>
      shares s' = ic / close b \<and> cash s' = ic + shares s' * close b \<and>
      cash s' = 2 * ic \<and> pv' = pv @ [ic])"
  using short_entry_rounded short_entry_exact by blast

theorem short_entry_resets_equity_witness:
  "loop_body_rounded round_double 100
      (\<lparr>cash = 70, position = 0, entry_price = 4, shares = 0\<rparr>, Some 70, [100, 70])
      \<lparr>pred_wma = 5, upper = 4, lower = 1, atr = 1, close = 2\<rparr>
     = Inr (\<lparr>cash = 200, position = - 1, entry_price = 2, shares = 50\<rparr>, Some 100, [100, 70, 100]) \<and>
   loop_body 100 (\<lparr>cash = 70, position = 0, entry_price = 4, shares = 0\<rparr>, Some 70, [100, 70])
      \<lparr>pred_wma = 5, upper = 4, lower = 1, atr = 1, close = 2\<rparr>
     = Inr (\<lparr>cash = 200, position = - 1, entry_price = 2, shares = 50\<rparr>, Some 100, [100, 70, 100]) \<and>
   shares \<lparr>cash = 200, position = - 1, entry_price = 2, shares = 50\<rparr> = round_double (100 / 2) \<and>
   cash \<lparr>cash = 200, position = - 1, entry_price = 2, shares = 50\<rparr> = 2 * 100 \<and>
   [100, 70, 100] = [100, 70] @ [100::real]"
proof -
  let ?s = "\<lparr>cash = 70, position = 0, entry_price = 4, shares = 0\<rparr> :: sim_state"
  let ?t = "\<lparr>cash = 200, position = - 1, entry_price = 2, shares = 50\<rparr> :: sim_state"
  let ?e = "\<lparr>pred_wma = 5, upper = 4, lower = 1, atr = 1, close = 2\<rparr> :: bar"
  have rounded: "loop_body_rounded round_double 100 (?s, Some 70, [100, 70]) ?e
      = Inr (?t, Some 100, [100, 70, 100])"
    by (simp add: loop_body_rounded_def transition_rounded_def truediv_rounded_def
        valuation_rounded_def round_double_def round_half_even_def normalise_numeral)
  have exact: "loop_body 100 (?s, Some 70, [100, 70]) ?e = Inr (?t, Some 100, [100, 70, 100])"
    by (simp add: loop_body_def transition_def truediv_def valuation_def)
  note T = short_entry_resets_equity [where ic = 100 and s = ?s and cv = "Some 70"
      and pv = "[100, 70]" and b = ?e and s' = ?t and cv' = "Some 100" and pv' = "[100, 70, 100]"]
  from T [where rnd = round_double, THEN conjunct1] rounded
  have "shares ?t = round_double (100 / close ?e)" by simp
  moreover from T [where rnd = round_double, THEN conjunct2] exact
  have "cash ?t = 2 * 100" by simp
  ultimately show ?thesis using rounded exact by simp
qed

theorem short_entry_value_counterexample:
  "loop_body_rounded round_double 100000 (init_state 100000)
      \<lparr>pred_wma = 100, upper = 90, lower = 70, atr = 1,
       close = 2906229134537523 / 35184372088832\<rparr>
     = Inr (\<lparr>cash = 200000, position = - 1, entry_price = 2906229134537523 / 35184372088832,
            shares = 5324511514653753 / 4398046511104\<rparr>,
           Some (6871947673600001 / 68719476736), [6871947673600001 / 68719476736]) \<and>
   (6871947673600001 / 68719476736 :: real) \<noteq> 100000 \<and>
   loop_body_rounded round_double (6787103858842665 / 549755813888)
      (init_state (6787103858842665 / 549755813888))
      \<lparr>pred_wma = 2, upper = 1, lower = 0, atr = 1,
       close = 4638707616191611 / 4503599627370496\<rparr>
     = Inr (\<lparr>cash = 848387982355333 / 34359738368, position = - 1,
            entry_price = 4638707616191611 / 4503599627370496,
            shares = 102959706596521 / 8589934592\<rparr>,
           Some (848387982355333 / 68719476736), [848387982355333 / 68719476736]) \<and>
   (848387982355333 / 34359738368 :: real) \<noteq> 2 * (6787103858842665 / 549755813888)"
  by (simp add: init_state_def loop_body_rounded_def transition_rounded_def truediv_rounded_def
      valuation_rounded_def round_double_def round_half_even_def normalise_numeral)

text \<open>
  Claim C2. An iteration that opens a short from flat sets \<open>shares\<close> to the initial
  capital divided by the close and \<open>cash\<close> to the initial capital plus
  \<open>shares * close\<close>, whatever the cash was. An iteration that finds a short position with
  the predicted average above the stop-loss level closes it: \<open>cash\<close> decreases by
  \<open>shares * close\<close>, \<open>shares\<close> becomes zero, and the value reported for that bar is
  the short valuation \<open>cash - shares * close\<close> of the state just before closing.
\<close>

theorem short_open_and_stop_loss_close:
  "(loop_body ic (s0, cv0, pv0) b0 = Inr (s1, cv1, pv1) \<and> position s0 = 0 \<and> position s1 = - 1 \<longrightarrow>
      shares s1 = ic / close b0 \<and> cash s1 = ic + shares s1 * close b0 \<and> entry_price s1 = close b0) \<and>
   (position s = - 1 \<and> pred_wma b > entry_price s + 3 * atr b \<longrightarrow>
      valuation s b cv = Some (cash s - shares s * close b) \<and>
      loop_body ic (s, cv, pv) b =
        Inr (s\<lparr>position := 0, cash := cash s - shares s * close b, shares := 0\<rparr>,
             Some (cash s - shares s * close b), pv @ [cash s - shares s * close b]))"
proof (intro conjI impI)
  assume a: "loop_body ic (s0, cv0, pv0) b0 = Inr (s1, cv1, pv1) \<and> position s0 = 0 \<and> position s1 = - 1"
  then have t: "transition ic s0 b0 = Inr s1" using loop_body_Inr by blast
  from t a show "shares s1 = ic / close b0"
    unfolding transition_cases by (auto split: if_splits)
  from t a show "cash s1 = ic + shares s1 * close b0"
    unfolding transition_cases by (auto split: if_splits)
  from t a show "entry_price s1 = close b0"
    unfolding transition_cases by (auto split: if_splits)
next
  assume a: "position s = - 1 \<and> pred_wma b > entry_price s + 3 * atr b"
  then show "valuation s b cv = Some (cash s - shares s * close b)"
    by (simp add: valuation_def)
  from a have "transition ic s b = Inr (s\<lparr>position := 0, cash := cash s - shares s * close b, shares := 0\<rparr>)"
    unfolding transition_cases by simp
  then show "loop_body ic (s, cv, pv) b =
        Inr (s\<lparr>position := 0, cash := cash s - shares s * close b, shares := 0\<rparr>,
             Some (cash s - shares s * close b), pv @ [cash s - shares s * close b])"
    by (simp add: loop_body_def valuation_def)
qed

theorem short_open_and_stop_loss_close_witness:
  "loop_body 100 (init_state 100) \<lparr>pred_wma = 5, upper = 4, lower = 1, atr = 1, close = 2\<rparr>
     = Inr (\<lparr>cash = 200, position = - 1, entry_price = 2, shares = 50\<rparr>, Some 100, [100]) \<and>
   loop_body 100 (\<lparr>cash = 200, position = - 1, entry_price = 2, shares = 50\<rparr>, Some 100, [100])
       \<lparr>pred_wma = 6, upper = 7, lower = 1, atr = 1, close = 3\<rparr>
     = Inr (\<lparr>cash = 50, position = 0, entry_price = 2, shares = 0\<rparr>, Some 50, [100, 50])"
proof -
  let ?s1 = "\<lparr>cash = 200, position = - 1, entry_price = 2, shares = 50\<rparr> :: sim_state"
  let ?e = "\<lparr>pred_wma = 5, upper = 4, lower = 1, atr = 1, close = 2\<rparr> :: bar"
  let ?b = "\<lparr>pred_wma = 6, upper = 7, lower = 1, atr = 1, close = 3\<rparr> :: bar"
  have step: "loop_body 100 (init_state 100) ?e = Inr (?s1, Some 100, [100])"
    by (simp add: init_state_def loop_body_def transition_def truediv_def valuation_def)
  have hyp: "position ?s1 = - 1 \<and> pred_wma ?b > entry_price ?s1 + 3 * atr ?b" by simp
  from short_open_and_stop_loss_close [of 100 "fst (init_state 100)" None "[]" ?e ?s1 "Some 100" "[100]" ?s1 ?b "Some 100" "[100]"]
    step hyp
  have "loop_body 100 (?s1, Some 100, [100]) ?b = Inr (?s1\<lparr>position := 0, cash := cash ?s1 - shares ?s1 * close ?b, shares := 0\<rparr>,
             Some (cash ?s1 - shares ?s1 * close ?b), [100] @ [cash ?s1 - shares ?s1 * close ?b])"
    by (simp add: init_state_def)
  with step show ?thesis by simp
qed

section \<open>Columns and rolling windows\<close>

lemma those_map_Some: "those (map (\<lambda>i. Some (f i)) is) = Some (map f is)"
  by (induction "is") simp_all

lemma those_None: "None \<in> set xs \<Longrightarrow> those xs = None"
  by (induction xs) (auto split: option.splits)

lemma length_shift [simp]: "length (shift k xs) = length xs"
  by (simp add: shift_def)

lemma length_col_op [simp]: "length (col_op f xs ys) = min (length xs) (length ys)"
  by (simp add: col_op_def)

lemma length_rolling [simp]: "length (rolling n f xs) = length xs"
  by (simp add: rolling_def)

lemma nth_shift:
  "t < length xs \<Longrightarrow>
   shift k xs ! t = (if 0 \<le> int t - k \<and> int t - k < int (length xs) then xs ! nat (int t - k) else None)"
  by (simp add: shift_def Let_def)

lemma nth_col_op:
  "t < length xs \<Longrightarrow> t < length ys \<Longrightarrow> col_op f xs ys ! t = binop f (xs ! t) (ys ! t)"
  by (simp add: col_op_def)

lemma nth_rolling:
  "t < length xs \<Longrightarrow> rolling n f xs ! t = Option.bind (window n xs t) f"
  by (simp add: rolling_def)

lemma window_early: "t + 1 < n \<Longrightarrow> window n xs t = None"
  by (simp add: window_def)

lemma those_nth_defined:
  assumes "\<And>i. a \<le> i \<Longrightarrow> i < b \<Longrightarrow> xs ! i = Some (f i)"
  shows "those (map ((!) xs) [a..<b]) = Some (map f [a..<b])"
proof -
  have "map ((!) xs) [a..<b] = map (\<lambda>i. Some (f i)) [a..<b]"
    by (rule map_cong [OF refl]) (simp add: assms)
  then show ?thesis by (simp only: those_map_Some)
qed

lemma those_nth_undefined:
  assumes "a \<le> i" and "i < b" and "xs ! i = None"
  shows "those (map ((!) xs) [a..<b]) = None"
proof -
  have "i \<in> set [a..<b]" using assms(1,2) by simp
  then have "xs ! i \<in> set (map ((!) xs) [a..<b])" by (simp only: set_map) (rule imageI)
  with assms(3) show ?thesis by (simp only: those_None)
qed

lemma window_defined:
  assumes "0 < n" and "n \<le> t + 1" and "\<And>i. t + 1 - n \<le> i \<Longrightarrow> i \<le> t \<Longrightarrow> xs ! i = Some (f i)"
  shows "window n xs t = Some (map f [t + 1 - n..<t + 1])"
proof -
  have "those (map ((!) xs) [t + 1 - n..<t + 1]) = Some (map f [t + 1 - n..<t + 1])"
    by (rule those_nth_defined) (simp add: assms(3))
  moreover have "\<not> (n = 0 \<or> t + 1 < n)" using assms(1,2) by simp
  ultimately show ?thesis unfolding window_def by (simp only: if_False)
qed

lemma window_undefined:
  assumes "t + 1 - n \<le> i" and "i \<le> t" and "xs ! i = None"
  shows "window n xs t = None"
proof -
  have "i < t + 1" using assms(2) by simp
  from those_nth_undefined [OF assms(1) this assms(3)]
  show ?thesis unfolding window_def by (simp only: if_cancel)
qed

lemma row_max_first: "row_max [Some a, None, None] = Some a"
  by (simp add: row_max_def List.map_filter_def)

lemma row_max_all: "row_max [Some a, Some b, Some c] = Some (max a (max b c))"
  by (simp add: row_max_def List.map_filter_def max.commute max.left_commute)

lemma length_true_range:
  "length (true_range hs ls cs) = min (length hs) (min (length ls) (length cs))"
  by (simp add: true_range_def Let_def)

lemma true_range_defined:
  assumes "length hs = len" and "length ls = len" and "length cs = len" and "t < len"
  shows "true_range (map Some hs) (map Some ls) (map Some cs) ! t =
     Some (if t = 0 then hs ! 0 - ls ! 0
           else max (hs ! t - ls ! t) (max \<bar>hs ! t - cs ! (t - 1)\<bar> \<bar>ls ! t - cs ! (t - 1)\<bar>))"
proof (cases "t = 0")
  case True
  with assms show ?thesis
    by (simp add: true_range_def Let_def nth_col_op nth_shift binop_def row_max_first)
next
  case False
  then have "nat (int t - 1) = t - 1" by simp
  with False assms show ?thesis
    by (simp add: true_range_def Let_def nth_col_op nth_shift binop_def row_max_all)
qed

section \<open>The average true range\<close>

text \<open>
  Claim C7, as amended. On columns without missing values the true range of row 0 is
  \<open>high - low\<close> of that row (the row-wise maximum skips the two undefined terms), the
  true range of a later row is the maximum of the three terms, and the average true range
  with window \<open>n\<close> is undefined on rows \<open>0\<close> to \<open>n - 2\<close> and is the mean of the last
  \<open>n\<close> true ranges from row \<open>n - 1\<close> on.
\<close>

theorem atr_warm_up:
  assumes "length hs = len" and "length ls = len" and "length cs = len" and "0 < n" and "t < len"
  shows "true_range (map Some hs) (map Some ls) (map Some cs) ! t = Some (true_range_value hs ls cs t) \<and>
         calculate_atr (map Some hs) (map Some ls) (map Some cs) n ! t =
           (if t + 1 < n then None
            else Some (sum_list (map (true_range_value hs ls cs) [t + 1 - n..<t + 1]) / real n))"
proof -
  let ?tr = "true_range (map Some hs) (map Some ls) (map Some cs)"
  have tr: "?tr ! i = Some (true_range_value hs ls cs i)" if "i < len" for i
    using true_range_defined [OF assms(1-3) that] by (simp only: true_range_value_def)
  have len: "length ?tr = len" using assms(1-3) by (simp add: length_true_range)
  have atr: "calculate_atr (map Some hs) (map Some ls) (map Some cs) n ! t
      = Option.bind (window n ?tr t) mean"
    unfolding calculate_atr_def using assms(5) len by (simp only: nth_rolling)
  show ?thesis
  proof (cases "t + 1 < n")
    case True
    then show ?thesis using tr [OF assms(5)] atr by (simp only: window_early) simp
  next
    case False
    then have n: "n \<le> t + 1" by simp
    have w: "window n ?tr t = Some (map (true_range_value hs ls cs) [t + 1 - n..<t + 1])"
    proof (rule window_defined [OF assms(4) n])
      fix i assume "i \<le> t"
      with assms(5) have "i < len" by simp
      then show "?tr ! i = Some (true_range_value hs ls cs i)" by (rule tr)
    qed
    have l: "length (map (true_range_value hs ls cs) [t + 1 - n..<t + 1]) = n"
      using n assms(4) by (simp del: upt_Suc)
    have "Option.bind (window n ?tr t) mean
        = Some (sum_list (map (true_range_value hs ls cs) [t + 1 - n..<t + 1]) / real n)"
      unfolding w mean_def using l assms(4) by (simp del: upt_Suc)
    with False tr [OF assms(5)] atr show ?thesis by (simp only: if_False) 
  qed
qed

theorem atr_warm_up_witness:
  "true_range (map Some [3, 5, 6]) (map Some [1, 2, 4]) (map Some [2, 4, 5]) ! 1 = Some (true_range_value [3, 5, 6] [1, 2, 4] [2, 4, 5] 1) \<and>
   calculate_atr (map Some [3, 5, 6]) (map Some [1, 2, 4]) (map Some [2, 4, 5]) 2 ! 1 =
     Some (sum_list (map (true_range_value [3, 5, 6] [1, 2, 4] [2, 4, 5]) [1 + 1 - 2..<1 + 1]) / real 2)"
  using atr_warm_up [of "[3, 5, 6]" 3 "[1, 2, 4]" "[2, 4, 5]" 2 1] by simp

theorem atr_warm_up_counterexample:
  "true_range [Some 3, Some 5, Some 6] [Some 1, Some 2, Some 4] [Some 2, Some 4, Some 5] ! 0 = Some 2 \<and>
   calculate_atr [Some 3, Some 5, Some 6] [Some 1, Some 2, Some 4] [Some 2, Some 4, Some 5] 2 ! 1 = Some (5 / 2)"
  by (simp add: calculate_atr_def true_range_def rolling_def window_def mean_def col_op_def
      shift_def binop_def row_max_def List.map_filter_def upt_rec Let_def)

section \<open>Constant price series\<close>

lemma window_constant:
  assumes "t < len"
  shows "window d (replicate len (Some c)) t =
           (if d = 0 \<or> t + 1 < d then None else Some (replicate d c))"
proof (cases "d = 0 \<or> t + 1 < d")
  case True
  then show ?thesis by (simp add: window_def)
next
  case False
  then have d: "0 < d" "d \<le> t + 1" by simp_all
  have "window d (replicate len (Some c)) t = Some (map (\<lambda>_. c) [t + 1 - d..<t + 1])"
  proof (rule window_defined [OF d])
    fix i assume "i \<le> t"
    with assms show "replicate len (Some c) ! i = Some c" by simp
  qed
  moreover have "map (\<lambda>_. c) [t + 1 - d..<t + 1] = replicate d c"
    using d by (simp add: map_replicate_const del: upt_Suc)
  ultimately show ?thesis using False by (simp only: if_False)
qed

lemma mean_replicate: "0 < d \<Longrightarrow> mean (replicate d c) = Some c"
  by (simp add: mean_def sum_list_replicate)

lemma std_replicate: "2 \<le> d \<Longrightarrow> std (replicate d c) = Some 0"
  by (simp add: std_def sum_list_replicate map_replicate)

lemma std_short: "d < 2 \<Longrightarrow> std (replicate d c) = None"
  by (simp add: std_def)

lemma bands_constant:
  assumes "t < len"
  shows "calculate_bollinger_bands (replicate len (Some c)) d k = (ma, sd, up, lo) \<Longrightarrow>
     ma ! t = (if d = 0 \<or> t + 1 < d then None else Some c) \<and>
     sd ! t = (if d < 2 \<or> t + 1 < d then None else Some 0) \<and>
     up ! t = (if d < 2 \<or> t + 1 < d then None else Some c) \<and>
     lo ! t = (if d < 2 \<or> t + 1 < d then None else Some c)"
proof -
  assume b: "calculate_bollinger_bands (replicate len (Some c)) d k = (ma, sd, up, lo)"
  let ?xs = "replicate len (Some c)"
  from b have ma: "ma = rolling d mean ?xs" and sd: "sd = rolling d std ?xs"
    and up: "up = col_op (+) ma (map (map_option ((*) k)) sd)"
    and lo: "lo = col_op (-) ma (map (map_option ((*) k)) sd)"
    by (auto simp add: calculate_bollinger_bands_def Let_def)
  have mat: "ma ! t = (if d = 0 \<or> t + 1 < d then None else Some c)"
    using assms by (simp add: ma nth_rolling window_constant mean_replicate)
  have sdt: "sd ! t = (if d < 2 \<or> t + 1 < d then None else Some 0)"
  proof (cases "d < 2")
    case True
    with assms show ?thesis by (simp add: sd nth_rolling window_constant std_short)
  next
    case False
    with assms show ?thesis by (simp add: sd nth_rolling window_constant std_replicate)
  qed
  have lens: "t < length ma" "t < length (map (map_option ((*) k)) sd)"
    using assms by (simp_all add: ma sd)
  have upt: "up ! t = (if d < 2 \<or> t + 1 < d then None else Some c)"
    unfolding up using lens assms mat sdt by (auto simp add: nth_col_op binop_def sd)
  have lot: "lo ! t = (if d < 2 \<or> t + 1 < d then None else Some c)"
    unfolding lo using lens assms mat sdt by (auto simp add: nth_col_op binop_def sd)
  from mat sdt upt lot show ?thesis by blast
qed

lemma classical_loop_append:
  "classical_loop st (xs @ ys) =
     (case classical_loop st xs of Inl e \<Rightarrow> Inl e | Inr st' \<Rightarrow> classical_loop st' ys)"
  by (induction xs arbitrary: st) (auto split: sum.splits)

lemma length_classical_rows [simp]: "length (classical_rows xs d k) = length xs"
  by (simp add: classical_rows_def split: prod.splits)

lemma classical_rows_constant:
  assumes "2 \<le> d"
  shows "classical_rows (replicate len (Some c)) d k =
           replicate (min len (d - 1)) (Some c, None, None) @
           replicate (len - (d - 1)) (Some c, Some c, Some c)"
proof (rule nth_equalityI)
  show "length (classical_rows (replicate len (Some c)) d k) =
        length (replicate (min len (d - 1)) (Some c, None, None) @
                replicate (len - (d - 1)) (Some c, Some c, Some c))"
    by simp
next
  fix t assume "t < length (classical_rows (replicate len (Some c)) d k)"
  then have t: "t < len" by simp
  obtain ma sd up lo where b: "calculate_bollinger_bands (replicate len (Some c)) d k = (ma, sd, up, lo)"
    by (cases "calculate_bollinger_bands (replicate len (Some c)) d k") auto
  from bands_constant [OF t b] assms
  have up: "up ! t = (if t + 1 < d then None else Some c)"
    and lo: "lo ! t = (if t + 1 < d then None else Some c)" by simp_all
  have lhs: "classical_rows (replicate len (Some c)) d k ! t = (Some c, up ! t, lo ! t)"
    using t by (simp add: classical_rows_def b)
  show "classical_rows (replicate len (Some c)) d k ! t =
        (replicate (min len (d - 1)) (Some c, None, None) @
         replicate (len - (d - 1)) (Some c, Some c, Some c)) ! t"
  proof (cases "t + 1 < d")
    case True
    with t have "t < min len (d - 1)" by simp
    then show ?thesis using True lhs up lo by (simp add: nth_append)
  next
    case False
    with t have m: "min len (d - 1) = d - 1" and "\<not> t < d - 1" and "t - (d - 1) < len - (d - 1)"
      by auto
    then show ?thesis using False lhs up lo by (simp add: nth_append m)
  qed
qed

lemma classical_warm_up:
  "classical_loop (Some capital, 0, Some 0, pv) (replicate m (Some c, None, None)) =
     Inr (Some capital, 0, Some 0, pv @ replicate m (Some capital))"
proof (induction m arbitrary: pv)
  case 0
  then show ?case by simp
next
  case (Suc m)
  have "classical_body (Some capital, 0, Some 0, pv) (Some c, None, None) =
          Inr (Some capital, 0, Some 0, pv @ [Some capital])"
    by (simp add: classical_body_def fle_def fge_def binop_def)
  then show ?case using Suc.IH [of "pv @ [Some capital]"]
    by (simp add: replicate_app_Cons_same)
qed

lemma classical_body_enter:
  assumes "c \<noteq> 0"
  shows "classical_body (Some capital, 0, Some 0, pv) (Some c, Some c, Some c) =
           Inr (Some 0, 1, Some (capital / c), pv @ [Some capital])"
  using assms by (simp add: classical_body_def fle_def fge_def binop_def ftruediv_def)

lemma classical_body_leave:
  assumes "c \<noteq> 0"
  shows "classical_body (Some 0, 1, Some (capital / c), pv) (Some c, Some c, Some c) =
           Inr (Some capital, 0, Some 0, pv @ [Some capital])"
  using assms by (simp add: classical_body_def fle_def fge_def binop_def ftruediv_def)

lemma classical_alternates:
  assumes "c \<noteq> 0"
  shows "classical_loop (Some capital, 0, Some 0, pv) (replicate m (Some c, Some c, Some c)) =
           Inr (if even m then (Some capital, 0, Some 0, pv @ replicate m (Some capital))
                else (Some 0, 1, Some (capital / c), pv @ replicate m (Some capital)))"
    and "classical_loop (Some 0, 1, Some (capital / c), pv) (replicate m (Some c, Some c, Some c)) =
           Inr (if even m then (Some 0, 1, Some (capital / c), pv @ replicate m (Some capital))
                else (Some capital, 0, Some 0, pv @ replicate m (Some capital)))"
proof (induction m arbitrary: pv)
  case 0
  {
    case 1 show ?case by simp
  next
    case 2 show ?case by simp
  }
next
  case (Suc m)
  {
    case 1
    show ?case
      using Suc.IH(2) [of "pv @ [Some capital]"] classical_body_enter [OF assms, of capital pv]
      by (simp add: replicate_app_Cons_same)
  next
    case 2
    show ?case
      using Suc.IH(1) [of "pv @ [Some capital]"] classical_body_leave [OF assms, of capital pv]
      by (simp add: replicate_app_Cons_same)
  }
qed

lemma classical_constant_run:
  assumes "2 \<le> d" and "c \<noteq> 0"
  shows "classical_run capital d k (replicate len (Some c)) =
     Inr (if len < d \<or> odd (len - d) then (Some capital, 0, Some 0, replicate len (Some capital))
          else (Some 0, 1, Some (capital / c), replicate len (Some capital)))"
proof -
  have split: "replicate (min len (d - 1)) (Some capital) @ replicate (len - (d - 1)) (Some capital)
      = replicate len (Some capital)"
    by (simp add: replicate_add [symmetric])
  have run: "classical_run capital d k (replicate len (Some c)) =
      classical_loop (Some capital, 0, Some 0, [] @ replicate (min len (d - 1)) (Some capital))
        (replicate (len - (d - 1)) (Some c, Some c, Some c))"
    unfolding classical_run_def classical_rows_constant [OF assms(1)] classical_loop_append
      classical_warm_up by simp
  show ?thesis
  proof (cases "len < d")
    case True
    then have "len - (d - 1) = 0" by simp
    with True show ?thesis unfolding run using split by simp
  next
    case False
    with assms(1) have "len - (d - 1) = Suc (len - d)" by arith
    then have par: "even (len - (d - 1)) \<longleftrightarrow> odd (len - d)" by simp
    show ?thesis unfolding run classical_alternates(1) [OF assms(2)]
      using False par split by simp
  qed
qed

text \<open>
  Claim C8. Twenty bars closing at 100, with the default window 20 and multiplier 3: at
  the last bar the standard deviation is 0 and the moving average and both tracks are
  100, as the claim says of a constant series. The entry test of the classical loop is
  \<open>close \<le> lower\<close>, which holds there with equality, so the run ends long, with
  position 1, 1000 shares and no cash, where the claim says the strategy never enters.
\<close>

theorem classical_enters_on_constant_series:
  "(case calculate_bollinger_bands (replicate 20 (Some 100)) 20 3 of
      (ma, sd, up, lo) \<Rightarrow>
        ma ! 19 = Some 100 \<and> sd ! 19 = Some 0 \<and> up ! 19 = Some 100 \<and> lo ! 19 = Some 100) \<and>
   classical_run 100000 20 3 (replicate 20 (Some 100)) =
     Inr (Some 0, 1, Some 1000, replicate 20 (Some 100000))"
proof -
  obtain ma sd up lo
    where b: "calculate_bollinger_bands (replicate 20 (Some 100)) 20 3 = (ma, sd, up, lo)"
    by (cases "calculate_bollinger_bands (replicate 20 (Some 100)) 20 3") auto
  have "(19::nat) < 20" by simp
  from bands_constant [OF this b]
  have "ma ! 19 = Some 100 \<and> sd ! 19 = Some 0 \<and> up ! 19 = Some 100 \<and> lo ! 19 = Some 100"
    by simp
  moreover have "classical_run 100000 20 3 (replicate 20 (Some 100)) =
     Inr (Some 0, 1, Some 1000, replicate 20 (Some 100000))"
    using classical_constant_run [where d = 20 and c = 100 and capital = 100000 and k = 3 and len = 20]
    by simp
  ultimately show ?thesis unfolding b by simp
qed

section \<open>The Sharpe ratio of a value series\<close>














section \<open>The feature frame\<close>

lemma feature_cols_eq:
  "feature_cols = [''Open'', ''High'', ''Low'', ''Close'', ''Volume'', ''WMA_3_lag_0'',
     ''WMA_3_lag_1'', ''WMA_3_lag_2'', ''WMA_3_lag_3'', ''WMA_3_lag_4'', ''WMA_3_lag_5'']"
  by (simp add: feature_cols_def upt_rec)

lemma upt_6: "[0..<6] = [0, 1, 2, 3, 4, 5]"
  by (simp add: upt_rec)

lemma defined_map_Some:
  assumes "\<forall>i<length xs. xs ! i \<noteq> None"
  shows "xs = map Some (map the xs)"
  using assms by (intro nth_equalityI) auto

lemma rolling_defined_iff:
  assumes "\<forall>i<length xs. xs ! i \<noteq> None" and "t < length xs" and "0 < n"
    and "\<And>w. length w = n \<Longrightarrow> f w \<noteq> None"
  shows "rolling n f xs ! t \<noteq> None \<longleftrightarrow> n \<le> t + 1"
proof (cases "t + 1 < n")
  case True
  then show ?thesis using assms(2) by (simp add: nth_rolling window_early)
next
  case False
  then have n: "n \<le> t + 1" by simp
  have w: "window n xs t = Some (map (\<lambda>i. the (xs ! i)) [t + 1 - n..<t + 1])"
  proof (rule window_defined [OF assms(3) n])
    fix i assume "i \<le> t"
    with assms(1,2) have "xs ! i \<noteq> None" by simp
    then show "xs ! i = Some (the (xs ! i))" by simp
  qed
  have "length (map (\<lambda>i. the (xs ! i)) [t + 1 - n..<t + 1]) = n"
    using n assms(3) by (simp del: upt_Suc)
  from assms(4) [OF this] n show ?thesis using assms(2) by (simp add: nth_rolling w del: upt_Suc)
qed

lemma mean_defined: "0 < length w \<Longrightarrow> mean w \<noteq> None"
  by (auto simp: mean_def)

lemma std_defined: "2 \<le> length w \<Longrightarrow> std w \<noteq> None"
  by (simp add: std_def)

lemma wma_defined_iff:
  assumes "\<forall>i<length xs. xs ! i \<noteq> None" and "t < length xs"
  shows "calculate_wma_3 xs ! t \<noteq> None \<longleftrightarrow> 2 \<le> t"
proof -
  have "rolling 3 (\<lambda>x. Some (sum_list (map2 (*) [1, 2, 3] x) / sum_list [1, 2, 3])) xs ! t \<noteq> None
      \<longleftrightarrow> 3 \<le> t + 1"
    by (rule rolling_defined_iff [OF assms]) simp_all
  then show ?thesis by (simp add: calculate_wma_3_def Let_def)
qed

lemma length_wma [simp]: "length (calculate_wma_3 xs) = length xs"
  by (simp add: calculate_wma_3_def Let_def)

lemma length_atr [simp]:
  "length (calculate_atr hs ls cs n) = min (length hs) (min (length ls) (length cs))"
  by (simp add: calculate_atr_def length_true_range)

lemma bands_defined_iff:
  assumes "\<forall>i<length xs. xs ! i \<noteq> None" and "t < length xs" and "2 \<le> d"
    and "calculate_bollinger_bands xs d k = (ma, sd, up, lo)"
  shows "(ma ! t \<noteq> None \<longleftrightarrow> d \<le> t + 1) \<and> (sd ! t \<noteq> None \<longleftrightarrow> d \<le> t + 1) \<and>
         (up ! t \<noteq> None \<longleftrightarrow> d \<le> t + 1) \<and> (lo ! t \<noteq> None \<longleftrightarrow> d \<le> t + 1)"
proof -
  from assms(4) have ma: "ma = rolling d mean xs" and sd: "sd = rolling d std xs"
    and up: "up = col_op (+) ma (map (map_option ((*) k)) sd)"
    and lo: "lo = col_op (-) ma (map (map_option ((*) k)) sd)"
    by (auto simp add: calculate_bollinger_bands_def Let_def)
  have d: "0 < d" using assms(3) by simp
  have mat: "ma ! t \<noteq> None \<longleftrightarrow> d \<le> t + 1" unfolding ma
    by (rule rolling_defined_iff [OF assms(1,2) d]) (use d in \<open>simp add: mean_defined\<close>)
  have sdt: "sd ! t \<noteq> None \<longleftrightarrow> d \<le> t + 1" unfolding sd
    by (rule rolling_defined_iff [OF assms(1,2) d]) (use assms(3) in \<open>simp add: std_defined\<close>)
  have lens: "t < length ma" "t < length (map (map_option ((*) k)) sd)"
    using assms(2) by (simp_all add: ma sd)
  have ksd: "map (map_option ((*) k)) sd ! t \<noteq> None \<longleftrightarrow> sd ! t \<noteq> None"
    using assms(2) by (simp add: sd)
  have upt: "up ! t \<noteq> None \<longleftrightarrow> d \<le> t + 1"
    unfolding up nth_col_op [OF lens] using mat sdt ksd
    by (auto simp add: binop_def split: option.splits)
  have lot: "lo ! t \<noteq> None \<longleftrightarrow> d \<le> t + 1"
    unfolding lo nth_col_op [OF lens] using mat sdt ksd
    by (auto simp add: binop_def split: option.splits)
  from mat sdt upt lot show ?thesis by blast
qed

lemma atr_defined_iff:
  assumes "\<forall>i<length hs. hs ! i \<noteq> None" and "\<forall>i<length ls. ls ! i \<noteq> None"
    and "\<forall>i<length cs. cs ! i \<noteq> None"
    and "length hs = len" and "length ls = len" and "length cs = len" and "t < len" and "0 < n"
  shows "calculate_atr hs ls cs n ! t \<noteq> None \<longleftrightarrow> n \<le> t + 1"
proof -
  let ?tr = "true_range hs ls cs"
  have eqs: "hs = map Some (map the hs)" "ls = map Some (map the ls)" "cs = map Some (map the cs)"
    using assms(1-3) by (simp_all only: defined_map_Some [symmetric])
  have len: "length ?tr = len" using assms(4-6) by (simp add: length_true_range)
  have "?tr ! i \<noteq> None" if "i < len" for i
  proof -
    have "true_range (map Some (map the hs)) (map Some (map the ls)) (map Some (map the cs)) ! i \<noteq> None"
      using true_range_defined [of "map the hs" len "map the ls" "map the cs" i] assms(4-6) that
      by simp
    then show ?thesis using eqs by simp
  qed
  then have all: "\<forall>i<length ?tr. ?tr ! i \<noteq> None" using len by simp
  have t: "t < length ?tr" using len assms(7) by simp
  show ?thesis unfolding calculate_atr_def
    by (rule rolling_defined_iff [OF all t assms(8)]) (use assms(8) in \<open>simp add: mean_defined\<close>)
qed


lemma bands_obtain:
  obtains ma sd up lo where "calculate_bollinger_bands xs d k = (ma, sd, up, lo)"
    and "length ma = length xs" and "length sd = length xs"
    and "length up = length xs" and "length lo = length xs"
  by (simp add: calculate_bollinger_bands_def Let_def)

lemma feature_frame_nth:
  assumes "t < length df" and "calculate_bollinger_bands (map Close df) 20 3 = (ma, sd, up, lo)"
  shows "feature_frame df ! t =
     \<lparr>date = date (df ! t), Open = Open (df ! t), High = High (df ! t),
      Low = Low (df ! t), Close = Close (df ! t), Volume = Volume (df ! t),
      others = others (df ! t),
      WMA_3 = calculate_wma_3 (map Close df) ! t, MA = ma ! t, STD = sd ! t,
      Upper_Track = up ! t, Lower_Track = lo ! t,
      ATR = calculate_atr (map High df) (map Low df) (map Close df) 20 ! t,
      lags = map (\<lambda>i. shift (int i) (calculate_wma_3 (map Close df)) ! t) [0..<6],
      Target_Diff = col_op (-) (shift (- 1) (calculate_wma_3 (map Close df)))
                      (calculate_wma_3 (map Close df)) ! t\<rparr>"
  using assms by (simp add: feature_frame_def Let_def comp_def del: upt_Suc)

lemma length_feature_frame [simp]: "length (feature_frame df) = length df"
  by (simp add: feature_frame_def Let_def split: prod.splits)

lemma lag_value:
  assumes "t < length xs"
  shows "shift (int i) xs ! t = (if i \<le> t then xs ! (t - i) else None)"
  using assms by (auto simp add: nth_shift nat_diff_distrib' simp flip: of_nat_diff)

lemma lead_value:
  assumes "t < length xs"
  shows "shift (- 1) xs ! t = (if t + 1 < length xs then xs ! (t + 1) else None)"
proof -
  have "nat (int t + 1) = t + 1" by simp
  with assms show ?thesis by (auto simp add: nth_shift)
qed

lemma target_value:
  assumes "t < length xs"
  shows "col_op (-) (shift (- 1) xs) xs ! t =
           (if t + 1 < length xs then binop (-) (xs ! (t + 1)) (xs ! t) else None)"
  using assms by (simp add: nth_col_op lead_value binop_def)

lemma getitem_features:
  assumes "lags r = [l0, l1, l2, l3, l4, l5]"
  shows "map (getitem r) feature_cols =
           map Some [Open r, High r, Low r, Close r, Volume r, l0, l1, l2, l3, l4, l5]"
  using assms by (simp add: feature_cols_eq getitem_def upt_rec)

lemma filter_range:
  assumes "b \<le> n"
  shows "filter (\<lambda>t. a \<le> t \<and> t < b) [0..<n] = [a..<b]"
  using assms
proof (induction n arbitrary: b)
  case 0
  then show ?case by simp
next
  case (Suc n)
  show ?case
  proof (cases "b = Suc n")
    case True
    have "filter (\<lambda>t. a \<le> t \<and> t < n) [0..<n] = [a..<n]" by (rule Suc.IH) simp
    moreover have "filter (\<lambda>t. a \<le> t \<and> t < Suc n) [0..<n] = filter (\<lambda>t. a \<le> t \<and> t < n) [0..<n]"
      by (rule filter_cong) auto
    ultimately show ?thesis using True by auto
  next
    case False
    with Suc.prems have "b \<le> n" by simp
    from Suc.IH [OF this] this show ?thesis by simp
  qed
qed

lemma frame_rows_defined:
  assumes "\<forall>r \<in> set df. price_defined r"
  shows "\<forall>i<length (map High df). map High df ! i \<noteq> None"
    and "\<forall>i<length (map Low df). map Low df ! i \<noteq> None"
    and "\<forall>i<length (map Close df). map Close df ! i \<noteq> None"
  using assms by (auto simp: price_defined_def)

lemma lags_defined_iff:
  assumes "\<forall>i<length xs. xs ! i \<noteq> None" and "t < length xs"
  shows "list_all (\<lambda>c. c \<noteq> None) (map (\<lambda>i. shift (int i) (calculate_wma_3 xs) ! t) [0..<6]) \<longleftrightarrow> 7 \<le> t"
proof -
  have w: "calculate_wma_3 xs ! j \<noteq> None \<longleftrightarrow> 2 \<le> j" if "j < length xs" for j
    using wma_defined_iff [OF assms(1) that] .
  have lag: "shift (int i) (calculate_wma_3 xs) ! t \<noteq> None \<longleftrightarrow> i \<le> t \<and> 2 \<le> t - i" for i
    using assms(2) w [of "t - i"] by (auto simp add: lag_value)
  have "list_all (\<lambda>c. c \<noteq> None) (map (\<lambda>i. shift (int i) (calculate_wma_3 xs) ! t) [0..<6])
      \<longleftrightarrow> (\<forall>i<6. shift (int i) (calculate_wma_3 xs) ! t \<noteq> None)"
    by (auto simp add: list_all_iff simp del: upt_Suc)
  also have "\<dots> \<longleftrightarrow> (\<forall>i<6. i \<le> t \<and> 2 \<le> t - i)"
    by (simp only: lag)
  also have "\<dots> \<longleftrightarrow> 7 \<le> t"
  proof
    assume "\<forall>i<6. i \<le> t \<and> 2 \<le> t - i"
    then have "(5::nat) \<le> t \<and> 2 \<le> t - 5" by simp
    then show "7 \<le> t" by arith
  next
    assume "7 \<le> t"
    then show "\<forall>i<6. i \<le> t \<and> 2 \<le> t - i" by auto
  qed
  finally show ?thesis .
qed

lemma target_defined_iff:
  assumes "\<forall>i<length xs. xs ! i \<noteq> None" and "t < length xs"
  shows "col_op (-) (shift (- 1) (calculate_wma_3 xs)) (calculate_wma_3 xs) ! t \<noteq> None
           \<longleftrightarrow> 2 \<le> t \<and> t + 1 < length xs"
proof -
  have w: "calculate_wma_3 xs ! j \<noteq> None \<longleftrightarrow> 2 \<le> j" if "j < length xs" for j
    using wma_defined_iff [OF assms(1) that] .
  show ?thesis using assms(2) w [of t] w [of "t + 1"]
    by (auto simp add: target_value binop_def split: option.splits)
qed

lemma row_defined_iff:
  assumes "\<forall>r \<in> set df. price_defined r" and "t < length df"
  shows "row_defined (feature_frame df ! t) \<longleftrightarrow> 19 \<le> t \<and> t + 1 < length df"
proof -
  obtain ma sd up lo where b: "calculate_bollinger_bands (map Close df) 20 3 = (ma, sd, up, lo)"
    by (rule bands_obtain)
  note cols = frame_rows_defined [OF assms(1)]
  have t: "t < length (map Close df)" using assms(2) by simp
  have p: "price_defined (df ! t)" using assms by simp
  from bands_defined_iff [OF cols(3) t _ b]
  have bands: "(ma ! t \<noteq> None \<longleftrightarrow> 19 \<le> t)" "(sd ! t \<noteq> None \<longleftrightarrow> 19 \<le> t)"
    "(up ! t \<noteq> None \<longleftrightarrow> 19 \<le> t)" "(lo ! t \<noteq> None \<longleftrightarrow> 19 \<le> t)" by auto
  have atr: "calculate_atr (map High df) (map Low df) (map Close df) 20 ! t \<noteq> None \<longleftrightarrow> 19 \<le> t"
    using atr_defined_iff [OF cols, of "length df" t 20] assms(2) by auto
  have wma: "calculate_wma_3 (map Close df) ! t \<noteq> None \<longleftrightarrow> 2 \<le> t"
    by (rule wma_defined_iff [OF cols(3) t])
  note lags = lags_defined_iff [OF cols(3) t]
  note target = target_defined_iff [OF cols(3) t]
  show ?thesis
    unfolding feature_frame_nth [OF assms(2) b] row_defined_def
    using p bands atr wma lags target
    by (auto simp add: price_defined_def simp del: upt_Suc)
qed

lemma six_elements:
  assumes "length xs = 6"
  obtains l0 l1 l2 l3 l4 l5 where "xs = [l0, l1, l2, l3, l4, l5]"
proof -
  from assms have "length xs = Suc (Suc (Suc (Suc (Suc (Suc 0)))))" by simp
  then show thesis using that by (auto simp add: length_Suc_conv)
qed

lemma getitem_feature_cols:
  assumes "length (lags r) = 6"
  shows "map (getitem r) feature_cols = map Some (features r)"
proof -
  from assms obtain l0 l1 l2 l3 l4 l5 where l: "lags r = [l0, l1, l2, l3, l4, l5]"
    by (rule six_elements)
  show ?thesis unfolding features_def l using getitem_features [OF l] by simp
qed

lemma feature_frame_lags:
  assumes "t < length df"
  shows "lags (feature_frame df ! t) =
           map (\<lambda>i. if i \<le> t then calculate_wma_3 (map Close df) ! (t - i) else None) [0..<6]"
proof -
  obtain ma sd up lo where b: "calculate_bollinger_bands (map Close df) 20 3 = (ma, sd, up, lo)"
    by (rule bands_obtain)
  have "t < length (calculate_wma_3 (map Close df))" using assms by simp
  then show ?thesis unfolding feature_frame_nth [OF assms b]
    by (simp add: lag_value del: upt_Suc)
qed

lemma feature_frame_fields:
  assumes "t < length df"
  shows "Open (feature_frame df ! t) = Open (df ! t)" and "High (feature_frame df ! t) = High (df ! t)"
    and "Low (feature_frame df ! t) = Low (df ! t)" and "Close (feature_frame df ! t) = Close (df ! t)"
    and "Volume (feature_frame df ! t) = Volume (df ! t)" and "date (feature_frame df ! t) = date (df ! t)"
    and "WMA_3 (feature_frame df ! t) = calculate_wma_3 (map Close df) ! t"
    and "Target_Diff (feature_frame df ! t) =
           (if t + 1 < length df
            then binop (-) (calculate_wma_3 (map Close df) ! (t + 1)) (calculate_wma_3 (map Close df) ! t)
            else None)"
proof -
  obtain ma sd up lo where b: "calculate_bollinger_bands (map Close df) 20 3 = (ma, sd, up, lo)"
    by (rule bands_obtain)
  have t: "t < length (calculate_wma_3 (map Close df))" using assms by simp
  note r = feature_frame_nth [OF assms b]
  show "Open (feature_frame df ! t) = Open (df ! t)" "High (feature_frame df ! t) = High (df ! t)"
    "Low (feature_frame df ! t) = Low (df ! t)" "Close (feature_frame df ! t) = Close (df ! t)"
    "Volume (feature_frame df ! t) = Volume (df ! t)" "date (feature_frame df ! t) = date (df ! t)"
    "WMA_3 (feature_frame df ! t) = calculate_wma_3 (map Close df) ! t"
    unfolding r by simp_all
  show "Target_Diff (feature_frame df ! t) =
           (if t + 1 < length df
            then binop (-) (calculate_wma_3 (map Close df) ! (t + 1)) (calculate_wma_3 (map Close df) ! t)
            else None)"
    unfolding r using target_value [OF t] by simp
qed

lemma feature_vector:
  assumes "t < length df"
  shows "map (getitem (feature_frame df ! t)) feature_cols =
     map Some ([Open (df ! t), High (df ! t), Low (df ! t), Close (df ! t), Volume (df ! t)] @
               map (\<lambda>i. if i \<le> t then calculate_wma_3 (map Close df) ! (t - i) else None) [0..<6])"
proof -
  have "length (lags (feature_frame df ! t)) = 6"
    unfolding feature_frame_lags [OF assms] by (simp del: upt_Suc)
  from getitem_feature_cols [OF this] show ?thesis
    unfolding features_def feature_frame_lags [OF assms] feature_frame_fields(1-5) [OF assms] .
qed

lemma all_cells_defined:
  "list_all (\<lambda>x. case x of Some (Some v) \<Rightarrow> True | _ \<Rightarrow> False) (map Some ys) =
     list_all (\<lambda>c. c \<noteq> None) ys"
  by (induction ys) (auto split: option.splits)

lemma features_defined_iff:
  assumes "\<forall>r \<in> set df. price_defined r" and "t < length df"
  shows "features_and_target_defined (feature_frame df ! t) \<longleftrightarrow> 7 \<le> t \<and> t + 1 < length df"
proof -
  let ?r = "feature_frame df ! t"
  note cols = frame_rows_defined [OF assms(1)]
  have t: "t < length (map Close df)" using assms(2) by simp
  have p: "price_defined (df ! t)" using assms by simp
  have "list_all (\<lambda>c. case getitem ?r c of Some (Some v) \<Rightarrow> True | _ \<Rightarrow> False) feature_cols
      \<longleftrightarrow> list_all (\<lambda>x. case x of Some (Some v) \<Rightarrow> True | _ \<Rightarrow> False) (map (getitem ?r) feature_cols)"
    by (simp add: list_all_iff)
  also have "\<dots> \<longleftrightarrow> list_all (\<lambda>c. c \<noteq> None)
      ([Open (df ! t), High (df ! t), Low (df ! t), Close (df ! t), Volume (df ! t)] @
       map (\<lambda>i. if i \<le> t then calculate_wma_3 (map Close df) ! (t - i) else None) [0..<6])"
    unfolding feature_vector [OF assms(2)] by (rule arg_cong [OF all_cells_defined])
  also have "\<dots> \<longleftrightarrow> list_all (\<lambda>c. c \<noteq> None)
       (map (\<lambda>i. if i \<le> t then calculate_wma_3 (map Close df) ! (t - i) else None) [0..<6])"
    using p by (simp add: price_defined_def del: upt_Suc)
  also have "\<dots> \<longleftrightarrow> list_all (\<lambda>c. c \<noteq> None) (lags ?r)"
    by (simp only: feature_frame_lags [OF assms(2)])
  also have "\<dots> \<longleftrightarrow> 7 \<le> t"
  proof -
    obtain ma sd up lo where b: "calculate_bollinger_bands (map Close df) 20 3 = (ma, sd, up, lo)"
      by (rule bands_obtain)
    show ?thesis unfolding feature_frame_nth [OF assms(2) b]
      using lags_defined_iff [OF cols(3) t] by (simp del: upt_Suc)
  qed
  finally have f: "list_all (\<lambda>c. case getitem ?r c of Some (Some v) \<Rightarrow> True | _ \<Rightarrow> False) feature_cols
      \<longleftrightarrow> 7 \<le> t" .
  obtain ma sd up lo where b: "calculate_bollinger_bands (map Close df) 20 3 = (ma, sd, up, lo)"
    by (rule bands_obtain)
  have tg: "Target_Diff ?r \<noteq> None \<longleftrightarrow> 2 \<le> t \<and> t + 1 < length df"
    unfolding feature_frame_nth [OF assms(2) b] using target_defined_iff [OF cols(3) t] by simp
  show ?thesis unfolding features_and_target_defined_def f tg by auto
qed

lemma prepare_features_kept:
  assumes "\<forall>r \<in> set df. price_defined r"
  shows "fst (prepare_features df) = map (\<lambda>t. cells (feature_frame df ! t)) [19..<length df - 1]"
proof -
  have ff: "feature_frame df = map (\<lambda>t. feature_frame df ! t) [0..<length df]"
    by (rule nth_equalityI) simp_all
  have "filter row_defined (feature_frame df)
      = map (\<lambda>t. feature_frame df ! t) (filter (\<lambda>t. row_defined (feature_frame df ! t)) [0..<length df])"
    by (subst ff) (simp add: filter_map comp_def)
  also have "filter (\<lambda>t. row_defined (feature_frame df ! t)) [0..<length df]
      = filter (\<lambda>t. 19 \<le> t \<and> t < length df - 1) [0..<length df]"
    by (rule filter_cong [OF refl]) (use row_defined_iff [OF assms] in auto)
  also have "\<dots> = [19..<length df - 1]" by (rule filter_range) simp
  finally show ?thesis by (simp add: prepare_features_def dropna_def comp_def)
qed

lemma flat_bars_defined: "\<forall>r \<in> set (flat_bars p n). price_defined r"
  by (auto simp add: flat_bars_def price_defined_def)

lemma length_flat_bars [simp]: "length (flat_bars p n) = n"
  by (simp add: flat_bars_def)

lemma features_defined_general:
  assumes "t < length df"
  shows "features_and_target_defined (feature_frame df ! t) \<longleftrightarrow>
           Open (df ! t) \<noteq> None \<and> High (df ! t) \<noteq> None \<and> Low (df ! t) \<noteq> None \<and>
           Close (df ! t) \<noteq> None \<and> Volume (df ! t) \<noteq> None \<and>
           list_all (\<lambda>c. c \<noteq> None) (lags (feature_frame df ! t)) \<and>
           Target_Diff (feature_frame df ! t) \<noteq> None"
proof -
  let ?r = "feature_frame df ! t"
  have "list_all (\<lambda>c. case getitem ?r c of Some (Some v) \<Rightarrow> True | _ \<Rightarrow> False) feature_cols
      \<longleftrightarrow> list_all (\<lambda>x. case x of Some (Some v) \<Rightarrow> True | _ \<Rightarrow> False) (map (getitem ?r) feature_cols)"
    by (simp add: list_all_iff)
  also have "\<dots> \<longleftrightarrow> list_all (\<lambda>c. c \<noteq> None)
      ([Open (df ! t), High (df ! t), Low (df ! t), Close (df ! t), Volume (df ! t)] @
       map (\<lambda>i. if i \<le> t then calculate_wma_3 (map Close df) ! (t - i) else None) [0..<6])"
    unfolding feature_vector [OF assms] by (rule arg_cong [OF all_cells_defined])
  also have "\<dots> \<longleftrightarrow> Open (df ! t) \<noteq> None \<and> High (df ! t) \<noteq> None \<and> Low (df ! t) \<noteq> None \<and>
           Close (df ! t) \<noteq> None \<and> Volume (df ! t) \<noteq> None \<and>
           list_all (\<lambda>c. c \<noteq> None) (lags ?r)"
    unfolding feature_frame_lags [OF assms] by (simp del: upt_Suc)
  finally show ?thesis unfolding features_and_target_defined_def by simp
qed

lemma feature_frame_indicators:
  assumes "t < length df"
  shows "others (feature_frame df ! t) = others (df ! t)"
    and "ATR (feature_frame df ! t) = calculate_atr (map High df) (map Low df) (map Close df) 20 ! t"
    and "case calculate_bollinger_bands (map Close df) 20 3 of
           (ma, sd, up, lo) \<Rightarrow>
             MA (feature_frame df ! t) = ma ! t \<and> STD (feature_frame df ! t) = sd ! t \<and>
             Upper_Track (feature_frame df ! t) = up ! t \<and>
             Lower_Track (feature_frame df ! t) = lo ! t"
proof -
  obtain ma sd up lo where b: "calculate_bollinger_bands (map Close df) 20 3 = (ma, sd, up, lo)"
    by (rule bands_obtain)
  note r = feature_frame_nth [OF assms b]
  show "others (feature_frame df ! t) = others (df ! t)" unfolding r by simp
  show "ATR (feature_frame df ! t) = calculate_atr (map High df) (map Low df) (map Close df) 20 ! t"
    unfolding r by simp
  show "case calculate_bollinger_bands (map Close df) 20 3 of
           (ma, sd, up, lo) \<Rightarrow>
             MA (feature_frame df ! t) = ma ! t \<and> STD (feature_frame df ! t) = sd ! t \<and>
             Upper_Track (feature_frame df ! t) = up ! t \<and>
             Lower_Track (feature_frame df ! t) = lo ! t"
    unfolding b r by simp
qed

lemma row_defined_general:
  assumes "t < length df"
  shows "row_defined (feature_frame df ! t) \<longleftrightarrow>
           features_and_target_defined (feature_frame df ! t) \<and>
           list_all (\<lambda>c. c \<noteq> None) (others (df ! t)) \<and>
           MA (feature_frame df ! t) \<noteq> None \<and> STD (feature_frame df ! t) \<noteq> None \<and>
           Upper_Track (feature_frame df ! t) \<noteq> None \<and> Lower_Track (feature_frame df ! t) \<noteq> None \<and>
           ATR (feature_frame df ! t) \<noteq> None"
proof -
  let ?r = "feature_frame df ! t"
  have w: "list_all (\<lambda>c. c \<noteq> None) (lags ?r) \<Longrightarrow> WMA_3 ?r \<noteq> None"
  proof -
    assume "list_all (\<lambda>c. c \<noteq> None) (lags ?r)"
    then have "\<forall>i \<in> set [0..<6]. (if i \<le> t then calculate_wma_3 (map Close df) ! (t - i) else None) \<noteq> None"
      unfolding feature_frame_lags [OF assms] by (simp add: list_all_iff del: upt_Suc)
    moreover have "(0::nat) \<in> set [0..<6]" by simp
    ultimately have "(if (0::nat) \<le> t then calculate_wma_3 (map Close df) ! (t - 0) else None) \<noteq> None"
      by blast
    then show ?thesis unfolding feature_frame_fields(7) [OF assms] by simp
  qed
  show ?thesis
    unfolding features_defined_general [OF assms] row_defined_def
      feature_frame_fields(1-5) [OF assms] feature_frame_indicators(1) [OF assms]
    using w by blast
qed

lemma prepare_features_general:
  "fst (prepare_features df) =
     map (\<lambda>t. cells (feature_frame df ! t))
         (filter (\<lambda>t. row_defined (feature_frame df ! t)) [0..<length df])"
proof -
  have ff: "feature_frame df = map (\<lambda>t. feature_frame df ! t) [0..<length df]"
    by (rule nth_equalityI) simp_all
  have "filter row_defined (feature_frame df)
      = map (\<lambda>t. feature_frame df ! t) (filter (\<lambda>t. row_defined (feature_frame df ! t)) [0..<length df])"
    by (subst ff) (simp add: filter_map comp_def)
  then show ?thesis by (simp add: prepare_features_def dropna_def comp_def)
qed

text \<open>
  Claim C6, as amended. \<open>prepare_features\<close> returns the column list Open, High, Low,
  Close, Volume and the six lags of the weighted average; selecting these columns from
  row \<open>t\<close> gives the five prices and the averages of rows \<open>t\<close> down to \<open>t - 5\<close>, in that
  order, and the target is the average of row \<open>t + 1\<close> minus that of row \<open>t\<close>. The rows
  returned are, in order, exactly the rows in which every column of the frame is defined:
  the features and the target, and also the 20-bar moving average, standard deviation,
  tracks and average true range and every other column of the input. On an input without
  missing values the features and the target are all defined from row 7 to the last row
  but one, and the returned rows are rows 19 to the last but one.
\<close>

theorem prepare_features_rows:
  "snd (prepare_features df) =
     [''Open'', ''High'', ''Low'', ''Close'', ''Volume'', ''WMA_3_lag_0'', ''WMA_3_lag_1'',
      ''WMA_3_lag_2'', ''WMA_3_lag_3'', ''WMA_3_lag_4'', ''WMA_3_lag_5''] \<and>
   fst (prepare_features df) =
     map (\<lambda>t. cells (feature_frame df ! t))
         (filter (\<lambda>t. row_defined (feature_frame df ! t)) [0..<length df]) \<and>
   (t < length df \<longrightarrow>
      map (getitem (feature_frame df ! t)) (snd (prepare_features df)) =
        map Some ([Open (df ! t), High (df ! t), Low (df ! t), Close (df ! t), Volume (df ! t)] @
                  map (\<lambda>i. if i \<le> t then calculate_wma_3 (map Close df) ! (t - i) else None)
                      [0..<6]) \<and>
      Target_Diff (feature_frame df ! t) =
        (if t + 1 < length df
         then binop (-) (calculate_wma_3 (map Close df) ! (t + 1))
                (calculate_wma_3 (map Close df) ! t)
         else None) \<and>
      others (feature_frame df ! t) = others (df ! t) \<and>
      ATR (feature_frame df ! t) =
        calculate_atr (map High df) (map Low df) (map Close df) 20 ! t \<and>
      (case calculate_bollinger_bands (map Close df) 20 3 of
         (ma, sd, up, lo) \<Rightarrow>
           MA (feature_frame df ! t) = ma ! t \<and> STD (feature_frame df ! t) = sd ! t \<and>
           Upper_Track (feature_frame df ! t) = up ! t \<and>
           Lower_Track (feature_frame df ! t) = lo ! t) \<and>
      (row_defined (feature_frame df ! t) \<longleftrightarrow>
         features_and_target_defined (feature_frame df ! t) \<and>
         list_all (\<lambda>c. c \<noteq> None) (others (df ! t)) \<and>
         MA (feature_frame df ! t) \<noteq> None \<and> STD (feature_frame df ! t) \<noteq> None \<and>
         Upper_Track (feature_frame df ! t) \<noteq> None \<and>
         Lower_Track (feature_frame df ! t) \<noteq> None \<and>
         ATR (feature_frame df ! t) \<noteq> None)) \<and>
   ((\<forall>r \<in> set df. price_defined r) \<and> t < length df \<longrightarrow>
      (features_and_target_defined (feature_frame df ! t) \<longleftrightarrow> 7 \<le> t \<and> t + 1 < length df) \<and>
      (row_defined (feature_frame df ! t) \<longleftrightarrow> 19 \<le> t \<and> t + 1 < length df) \<and>
      fst (prepare_features df) = map (\<lambda>t. cells (feature_frame df ! t)) [19..<length df - 1])"
proof -
  have cols: "snd (prepare_features df) = feature_cols" by (simp add: prepare_features_def)
  have general: "t < length df \<longrightarrow>
      map (getitem (feature_frame df ! t)) feature_cols =
        map Some ([Open (df ! t), High (df ! t), Low (df ! t), Close (df ! t), Volume (df ! t)] @
                  map (\<lambda>i. if i \<le> t then calculate_wma_3 (map Close df) ! (t - i) else None)
                      [0..<6]) \<and>
      Target_Diff (feature_frame df ! t) =
        (if t + 1 < length df
         then binop (-) (calculate_wma_3 (map Close df) ! (t + 1))
                (calculate_wma_3 (map Close df) ! t)
         else None) \<and>
      others (feature_frame df ! t) = others (df ! t) \<and>
      ATR (feature_frame df ! t) =
        calculate_atr (map High df) (map Low df) (map Close df) 20 ! t \<and>
      (case calculate_bollinger_bands (map Close df) 20 3 of
         (ma, sd, up, lo) \<Rightarrow>
           MA (feature_frame df ! t) = ma ! t \<and> STD (feature_frame df ! t) = sd ! t \<and>
           Upper_Track (feature_frame df ! t) = up ! t \<and>
           Lower_Track (feature_frame df ! t) = lo ! t) \<and>
      (row_defined (feature_frame df ! t) \<longleftrightarrow>
         features_and_target_defined (feature_frame df ! t) \<and>
         list_all (\<lambda>c. c \<noteq> None) (others (df ! t)) \<and>
         MA (feature_frame df ! t) \<noteq> None \<and> STD (feature_frame df ! t) \<noteq> None \<and>
         Upper_Track (feature_frame df ! t) \<noteq> None \<and>
         Lower_Track (feature_frame df ! t) \<noteq> None \<and>
         ATR (feature_frame df ! t) \<noteq> None)"
  proof
    assume t: "t < length df"
    from feature_vector [OF t] feature_frame_fields(8) [OF t] feature_frame_indicators [OF t]
      row_defined_general [OF t]
    show "map (getitem (feature_frame df ! t)) feature_cols =
        map Some ([Open (df ! t), High (df ! t), Low (df ! t), Close (df ! t), Volume (df ! t)] @
                  map (\<lambda>i. if i \<le> t then calculate_wma_3 (map Close df) ! (t - i) else None)
                      [0..<6]) \<and>
      Target_Diff (feature_frame df ! t) =
        (if t + 1 < length df
         then binop (-) (calculate_wma_3 (map Close df) ! (t + 1))
                (calculate_wma_3 (map Close df) ! t)
         else None) \<and>
      others (feature_frame df ! t) = others (df ! t) \<and>
      ATR (feature_frame df ! t) =
        calculate_atr (map High df) (map Low df) (map Close df) 20 ! t \<and>
      (case calculate_bollinger_bands (map Close df) 20 3 of
         (ma, sd, up, lo) \<Rightarrow>
           MA (feature_frame df ! t) = ma ! t \<and> STD (feature_frame df ! t) = sd ! t \<and>
           Upper_Track (feature_frame df ! t) = up ! t \<and>
           Lower_Track (feature_frame df ! t) = lo ! t) \<and>
      (row_defined (feature_frame df ! t) \<longleftrightarrow>
         features_and_target_defined (feature_frame df ! t) \<and>
         list_all (\<lambda>c. c \<noteq> None) (others (df ! t)) \<and>
         MA (feature_frame df ! t) \<noteq> None \<and> STD (feature_frame df ! t) \<noteq> None \<and>
         Upper_Track (feature_frame df ! t) \<noteq> None \<and>
         Lower_Track (feature_frame df ! t) \<noteq> None \<and>
         ATR (feature_frame df ! t) \<noteq> None)"
      by (simp only: simp_thms)
  qed
  have complete: "(\<forall>r \<in> set df. price_defined r) \<and> t < length df \<longrightarrow>
      (features_and_target_defined (feature_frame df ! t) \<longleftrightarrow> 7 \<le> t \<and> t + 1 < length df) \<and>
      (row_defined (feature_frame df ! t) \<longleftrightarrow> 19 \<le> t \<and> t + 1 < length df) \<and>
      fst (prepare_features df) = map (\<lambda>t. cells (feature_frame df ! t)) [19..<length df - 1]"
  proof
    assume a: "(\<forall>r \<in> set df. price_defined r) \<and> t < length df"
    then have p: "\<forall>r \<in> set df. price_defined r" and t: "t < length df" by simp_all
    from features_defined_iff [OF p t] row_defined_iff [OF p t] prepare_features_kept [OF p]
    show "(features_and_target_defined (feature_frame df ! t) \<longleftrightarrow> 7 \<le> t \<and> t + 1 < length df) \<and>
      (row_defined (feature_frame df ! t) \<longleftrightarrow> 19 \<le> t \<and> t + 1 < length df) \<and>
      fst (prepare_features df) = map (\<lambda>t. cells (feature_frame df ! t)) [19..<length df - 1]"
      by (simp only: simp_thms)
  qed
  from cols feature_cols_eq prepare_features_general [of df] general complete
  show ?thesis unfolding cols by (simp only: simp_thms)
qed

theorem prepare_features_rows_witness:
  "19 < length (flat_bars 1 21) \<and>
   features_and_target_defined (feature_frame (flat_bars 1 21) ! 19) \<and>
   row_defined (feature_frame (flat_bars 1 21) ! 19) \<and>
   others (feature_frame (flat_bars 1 21) ! 19) = others (flat_bars 1 21 ! 19) \<and>
   fst (prepare_features (flat_bars 1 21)) = [cells (feature_frame (flat_bars 1 21) ! 19)]"
proof -
  have h: "\<forall>r \<in> set (flat_bars 1 21). price_defined r" by (rule flat_bars_defined)
  have l: "19 < length (flat_bars 1 21)" by simp
  have u: "[19..<length (flat_bars 1 21) - 1] = [19]" by (simp add: upt_rec)
  note T = prepare_features_rows [where df = "flat_bars 1 21" and t = 19]
  from T h l have A:
    "(features_and_target_defined (feature_frame (flat_bars 1 21) ! 19) \<longleftrightarrow>
        7 \<le> (19::nat) \<and> 19 + 1 < length (flat_bars 1 21)) \<and>
     (row_defined (feature_frame (flat_bars 1 21) ! 19) \<longleftrightarrow>
        19 \<le> (19::nat) \<and> 19 + 1 < length (flat_bars 1 21)) \<and>
     fst (prepare_features (flat_bars 1 21)) =
       map (\<lambda>t. cells (feature_frame (flat_bars 1 21) ! t)) [19..<length (flat_bars 1 21) - 1]"
    by blast
  from T l have B: "others (feature_frame (flat_bars 1 21) ! 19) = others (flat_bars 1 21 ! 19)"
    by blast
  from A B l show ?thesis unfolding u by simp
qed

theorem prepare_features_rows_counterexample:
  "features_and_target_defined (feature_frame (flat_bars 1 9) ! 7) \<and>
   fst (prepare_features (flat_bars 1 9)) = []"
proof -
  have h: "\<forall>r \<in> set (flat_bars 1 9). price_defined r" by (rule flat_bars_defined)
  have l: "7 < length (flat_bars 1 9)" by simp
  from features_defined_iff [OF h l] prepare_features_kept [OF h] show ?thesis by simp
qed

section \<open>The whole run\<close>

lemma feature_frame_six_lags:
  assumes "r \<in> set (feature_frame df)"
  shows "length (lags r) = 6"
proof -
  from assms obtain t where t: "t < length df" and r: "r = feature_frame df ! t"
    by (auto simp add: in_set_conv_nth)
  show ?thesis unfolding r feature_frame_lags [OF t] by (simp del: upt_Suc)
qed

lemma prepared_six_lags:
  assumes "r \<in> set (fst (prepare_features df))"
  shows "length (lags r) = 6"
proof -
  from assms obtain r0 where "r0 \<in> set (feature_frame df)" and "r = cells r0"
    by (auto simp add: prepare_features_def dropna_def)
  with feature_frame_six_lags [of r0 df] show ?thesis by (simp add: cells_def)
qed

lemma take_columns_features:
  assumes "\<forall>r \<in> set frame. length (lags r) = 6"
  shows "take_columns feature_cols frame = Inr (map features frame)"
proof -
  have "map (\<lambda>r. those (map (getitem r) feature_cols)) frame = map (\<lambda>r. Some (features r)) frame"
  proof (rule map_cong [OF refl])
    fix r assume "r \<in> set frame"
    with assms have "length (lags r) = 6" by simp
    from getitem_feature_cols [OF this]
    show "those (map (getitem r) feature_cols) = Some (features r)"
      using those_map_Some [of "\<lambda>x. x" "features r"] by simp
  qed
  then show ?thesis unfolding take_columns_def by (simp only: those_map_Some) simp
qed

lemma zip_map_same: "map (\<lambda>(x, y). g x y) (zip xs (map f xs)) = map (\<lambda>x. g x (f x)) xs"
  by (induction xs) simp_all

lemma zip3_map_same:
  "map (\<lambda>((r, p), v). g r p v) (zip (zip xs (map f xs)) vs) = map (\<lambda>(r, v). g r (f r) v) (zip xs vs)"
proof (induction xs arbitrary: vs)
  case Nil
  then show ?case by simp
next
  case (Cons x xs)
  then show ?case by (cases vs) simp_all
qed

lemma run_eq:
  "run fit predict self df split_date =
     (let train_data = filter (\<lambda>r. date r < split_date) (fst (prepare_features df));
          test_data = filter (\<lambda>r. split_date \<le> date r) (fst (prepare_features df))
      in if test_data = [] then (Inl (ValueError ''No test data available.''), self)
         else
           (case fit (model self) (map features train_data) (map Target_Diff train_data) of
              Inl e \<Rightarrow> (Inl e, self)
            | Inr m \<Rightarrow>
                (case simulate (initial_capital self) (init_state (initial_capital self))
                        (map (\<lambda>r. read_bar r (predict m (features r))) test_data) of
                   Inl e \<Rightarrow> (Inl e, self\<lparr>model := m\<rparr>)
                 | Inr (s, curr_val, portfolio_values) \<Rightarrow>
                     (Inr (map (\<lambda>(r, v). \<lparr>row = r, Predicted_Diff = predict m (features r),
                                           Predicted_WMA_Next = WMA_3 r + predict m (features r),
                                           Portfolio_Value = v\<rparr>)
                               (zip test_data portfolio_values)),
                      self\<lparr>model := m\<rparr>))))"
proof -
  define P where "P = fst (prepare_features df)"
  let ?train = "filter (\<lambda>r. date r < split_date) P"
  let ?test = "filter (\<lambda>r. split_date \<le> date r) P"
  have pf: "prepare_features df = (P, feature_cols)" by (simp add: P_def prepare_features_def)
  have six: "length (lags r) = 6" if "r \<in> set P" for r
    using that unfolding P_def by (rule prepared_six_lags)
  have tr: "take_columns feature_cols ?train = Inr (map features ?train)"
    by (rule take_columns_features) (simp add: six)
  have te: "take_columns feature_cols ?test = Inr (map features ?test)"
    by (rule take_columns_features) (simp add: six)
  have bars: "map2 read_bar ?test (map (predict m) (map features ?test))
      = map (\<lambda>r. read_bar r (predict m (features r))) ?test" for m
    using zip_map_same [of read_bar ?test "\<lambda>r. predict m (features r)"] by (simp add: comp_def)
  have out: "map (\<lambda>((r, p), v). \<lparr>row = r, Predicted_Diff = p, Predicted_WMA_Next = WMA_3 r + p,
                                 Portfolio_Value = v\<rparr>)
               (zip (zip ?test (map (predict m) (map features ?test))) pv)
      = map (\<lambda>(r, v). \<lparr>row = r, Predicted_Diff = predict m (features r),
                        Predicted_WMA_Next = WMA_3 r + predict m (features r),
                        Portfolio_Value = v\<rparr>) (zip ?test pv)" for m pv
    using zip3_map_same [of "\<lambda>r p v. \<lparr>row = r, Predicted_Diff = p, Predicted_WMA_Next = WMA_3 r + p,
                                 Portfolio_Value = v\<rparr>" ?test "\<lambda>r. predict m (features r)" pv]
    by (simp add: comp_def)
  have "run fit predict self df split_date =
     (let train_data = filter (\<lambda>r. date r < split_date) P;
          test_data = filter (\<lambda>r. split_date \<le> date r) P
      in if test_data = [] then (Inl (ValueError ''No test data available.''), self)
         else
           (case fit (model self) (map features train_data) (map Target_Diff train_data) of
              Inl e \<Rightarrow> (Inl e, self)
            | Inr m \<Rightarrow>
                (case simulate (initial_capital self) (init_state (initial_capital self))
                        (map (\<lambda>r. read_bar r (predict m (features r))) test_data) of
                   Inl e \<Rightarrow> (Inl e, self\<lparr>model := m\<rparr>)
                 | Inr (s, curr_val, portfolio_values) \<Rightarrow>
                     (Inr (map (\<lambda>(r, v). \<lparr>row = r, Predicted_Diff = predict m (features r),
                                           Predicted_WMA_Next = WMA_3 r + predict m (features r),
                                           Portfolio_Value = v\<rparr>)
                               (zip test_data portfolio_values)),
                      self\<lparr>model := m\<rparr>))))"
    unfolding run_def pf prod.case Let_def
    by (simp only: tr te sum.case bars out length_0_conv)
  then show ?thesis unfolding P_def .
qed

lemma simulate_value_at:
  assumes "simulate ic (init_state ic) bars = Inr (s, cv, pv)" and "i < length bars"
  shows "\<exists>si cvi pvi. simulate ic (init_state ic) (take (Suc i) bars) = Inr (si, cvi, pvi) \<and>
           position si \<in> {0, 1, - 1} \<and>
           pv ! i = (if position si = 0 then cash si
                     else if position si = 1 then shares si * close (bars ! i)
                     else cash si - shares si * close (bars ! i))"
proof -
  from simulate_prefix [OF assms(1), of "Suc i"] obtain r1
    where p1: "simulate ic (init_state ic) (take (Suc i) bars) = Inr r1"
      and rest: "simulate ic r1 (drop (Suc i) bars) = Inr (s, cv, pv)" by blast
  obtain si cvi pvi where r1: "r1 = (si, cvi, pvi)" by (cases r1) auto
  have tk: "take (Suc i) bars = take i bars @ [bars ! i]"
    using assms(2) by (rule take_Suc_conv_app_nth)
  from p1 obtain r0 where p0: "simulate ic (init_state ic) (take i bars) = Inr r0"
    and step: "simulate ic r0 [bars ! i] = Inr r1"
    unfolding tk simulate_append by (auto split: sum.splits)
  obtain s0 cv0 pv0 where r0: "r0 = (s0, cv0, pv0)" by (cases r0) auto
  from step have "simulate ic (s0, cv0, pv0) (bars ! i # []) = Inr (si, cvi, pvi)"
    by (simp add: r0 r1)
  then obtain s1 v where t: "transition ic s0 (bars ! i) = Inr s1"
    and val: "valuation s1 (bars ! i) cv0 = Some v"
    and fin: "simulate ic (s1, Some v, pv0 @ [v]) [] = Inr (si, cvi, pvi)"
    by (rule simulate_Cons_Inr)
  from fin have si: "s1 = si" and pvi: "pvi = pv0 @ [v]" by simp_all
  have init: "init_state ic = (fst (init_state ic), None, [])" by (simp add: init_state_def)
  have "simulate ic (fst (init_state ic), None, []) (take i bars) = Inr (s0, cv0, pv0)"
    using p0 r0 init by simp
  from simulate_values [OF this] have l0: "length pv0 = i" using assms(2) by auto
  have "simulate ic (fst (init_state ic), None, []) (take (Suc i) bars) = Inr (si, cvi, pvi)"
    using p1 r1 init by simp
  from simulate_inv [OF this] have pos: "position si \<in> {0, 1, - 1}"
    by (simp add: init_state_def)
  from valuation_known [OF pos, of "bars ! i" cv0] val si
  have v: "v = (if position si = 0 then cash si
                else if position si = 1 then shares si * close (bars ! i)
                else cash si - shares si * close (bars ! i))" by simp
  from rest r1 have "simulate ic (si, cvi, pvi) (drop (Suc i) bars) = Inr (s, cv, pv)" by simp
  from simulate_values [OF this] obtain vs where "pv = pvi @ vs" by blast
  then have "pv ! i = v" using pvi l0 by (simp add: nth_append)
  with v p1 r1 pos show ?thesis by blast
qed

lemma run_Inr:
  assumes "run fit predict self df split_date = (Inr out, self')"
  obtains m s cv pv where
    "fit (model self) (map features (filter (\<lambda>r. date r < split_date) (fst (prepare_features df))))
       (map Target_Diff (filter (\<lambda>r. date r < split_date) (fst (prepare_features df)))) = Inr m"
    and "self' = self\<lparr>model := m\<rparr>"
    and "filter (\<lambda>r. split_date \<le> date r) (fst (prepare_features df)) \<noteq> []"
    and "simulate (initial_capital self) (init_state (initial_capital self))
           (map (\<lambda>r. read_bar r (predict m (features r)))
                (filter (\<lambda>r. split_date \<le> date r) (fst (prepare_features df)))) = Inr (s, cv, pv)"
    and "out = map (\<lambda>(r, v). \<lparr>row = r, Predicted_Diff = predict m (features r),
                                Predicted_WMA_Next = WMA_3 r + predict m (features r),
                                Portfolio_Value = v\<rparr>)
                   (zip (filter (\<lambda>r. split_date \<le> date r) (fst (prepare_features df))) pv)"
    and "length pv = length (filter (\<lambda>r. split_date \<le> date r) (fst (prepare_features df)))"
proof -
  let ?test = "filter (\<lambda>r. split_date \<le> date r) (fst (prepare_features df))"
  from assms have ne: "?test \<noteq> []"
    unfolding run_eq Let_def by (auto split: if_splits)
  from assms ne obtain m where f: "fit (model self)
       (map features (filter (\<lambda>r. date r < split_date) (fst (prepare_features df))))
       (map Target_Diff (filter (\<lambda>r. date r < split_date) (fst (prepare_features df)))) = Inr m"
    unfolding run_eq Let_def by (auto split: sum.splits)
  from assms ne f obtain s cv pv where sim: "simulate (initial_capital self) (init_state (initial_capital self))
           (map (\<lambda>r. read_bar r (predict m (features r))) ?test) = Inr (s, cv, pv)"
    unfolding run_eq Let_def by (auto split: sum.splits)
  from assms ne f sim have out: "out = map (\<lambda>(r, v). \<lparr>row = r, Predicted_Diff = predict m (features r),
                                Predicted_WMA_Next = WMA_3 r + predict m (features r),
                                Portfolio_Value = v\<rparr>) (zip ?test pv)"
    and self': "self' = self\<lparr>model := m\<rparr>"
    unfolding run_eq Let_def by simp_all
  have "simulate (initial_capital self) (fst (init_state (initial_capital self)), None, [])
           (map (\<lambda>r. read_bar r (predict m (features r))) ?test) = Inr (s, cv, pv)"
    using sim by (simp add: init_state_def)
  from simulate_values [OF this] have "length pv = length ?test" by auto
  with f self' ne sim out that show thesis by blast
qed

lemma wma_constant:
  assumes "t < len"
  shows "calculate_wma_3 (replicate len (Some c)) ! t = (if t < 2 then None else Some c)"
proof -
  have "replicate 3 c = [c, c, c]" by (simp add: numeral_3_eq_3)
  then show ?thesis using assms
    by (auto simp add: calculate_wma_3_def Let_def nth_rolling window_constant)
qed

lemma close_flat_bars: "map Close (flat_bars p n) = replicate n (Some p)"
  by (simp add: flat_bars_def comp_def map_replicate_const)

lemma flat_bars_row:
  assumes "20 \<le> t + 1" and "t < n"
  shows "date (cells (feature_frame (flat_bars p n) ! t)) = t"
    and "Close (cells (feature_frame (flat_bars p n) ! t)) = p"
    and "WMA_3 (cells (feature_frame (flat_bars p n) ! t)) = p"
    and "Lower_Track (cells (feature_frame (flat_bars p n) ! t)) = p"
proof -
  let ?df = "flat_bars p n"
  obtain ma sd up lo where b: "calculate_bollinger_bands (map Close ?df) 20 3 = (ma, sd, up, lo)"
    by (rule bands_obtain)
  have t: "t < length ?df" using assms(2) by simp
  from bands_constant [OF assms(2) b [unfolded close_flat_bars]] assms(1)
  have lo: "lo ! t = Some p" by simp
  have w: "calculate_wma_3 (map Close ?df) ! t = Some p"
    unfolding close_flat_bars using wma_constant [OF assms(2)] assms(1) by simp
  have row: "df_row = ?df ! t \<Longrightarrow> date df_row = t \<and> Close df_row = Some p" for df_row
    using assms(2) by (simp add: flat_bars_def)
  note r = feature_frame_nth [OF t b]
  show "date (cells (feature_frame ?df ! t)) = t" unfolding r cells_def using row by simp
  show "Close (cells (feature_frame ?df ! t)) = p" unfolding r cells_def using row by simp
  show "WMA_3 (cells (feature_frame ?df ! t)) = p" unfolding r cells_def using w by simp
  show "Lower_Track (cells (feature_frame ?df ! t)) = p" unfolding r cells_def using lo by simp
qed

lemma enter_long_first:
  assumes "pred_wma b \<le> lower b"
  shows "simulate ic (init_state ic) [b] =
     (if close b = 0 then Inl ZeroDivisionError
      else Inr (\<lparr>cash = 0, position = 1, entry_price = close b, shares = ic / close b\<rparr>,
                Some ic, [ic]))"
  using assms
  by (simp add: init_state_def loop_body_def transition_def truediv_def valuation_def)

lemma flat_bars_sets:
  "training_set (flat_bars p 22) 20 = [cells (feature_frame (flat_bars p 22) ! 19)]"
  "evaluation_set (flat_bars p 22) 20 = [cells (feature_frame (flat_bars p 22) ! 20)]"
proof -
  have "[19..<length (flat_bars p 22) - 1] = [19, 20]" by (simp add: upt_rec)
  then have P: "fst (prepare_features (flat_bars p 22)) =
      [cells (feature_frame (flat_bars p 22) ! 19), cells (feature_frame (flat_bars p 22) ! 20)]"
    using prepare_features_kept [OF flat_bars_defined, of p 22] by simp
  have d19: "date (cells (feature_frame (flat_bars p 22) ! 19)) = 19"
    by (rule flat_bars_row) simp_all
  have d20: "date (cells (feature_frame (flat_bars p 22) ! 20)) = 20"
    by (rule flat_bars_row) simp_all
  show "training_set (flat_bars p 22) 20 = [cells (feature_frame (flat_bars p 22) ! 19)]"
    unfolding training_set_def P by (simp add: d19 d20)
  show "evaluation_set (flat_bars p 22) 20 = [cells (feature_frame (flat_bars p 22) ! 20)]"
    unfolding evaluation_set_def P by (simp add: d19 d20)
qed

lemma run_flat_bars:
  "run still_fit still_predict self (flat_bars p 22) 20 =
     (if p = 0 then (Inl ZeroDivisionError, self)
      else (Inr [\<lparr>row = cells (feature_frame (flat_bars p 22) ! 20), Predicted_Diff = 0,
                  Predicted_WMA_Next = p, Portfolio_Value = initial_capital self\<rparr>], self))"
proof -
  let ?r = "cells (feature_frame (flat_bars p 22) ! 20)"
  have f: "Close ?r = p" "WMA_3 ?r = p" "Lower_Track ?r = p"
    by (rule flat_bars_row; simp)+
  have b: "pred_wma (read_bar ?r 0) \<le> lower (read_bar ?r 0)" "close (read_bar ?r 0) = p"
    by (simp_all add: read_bar_def f)
  show ?thesis
    unfolding run_eq Let_def flat_bars_sets [unfolded training_set_def evaluation_set_def]
    using enter_long_first [OF b(1), of "initial_capital self"] b(2)
    by (simp add: still_fit_def still_predict_def f)
qed

lemma run_values:
  assumes "run fit predict self df split_date = (Inr out, self')"
  shows "map row out = evaluation_set df split_date \<and>
         (\<forall>i<length out. \<exists>s cv pv.
            simulate (initial_capital self) (init_state (initial_capital self))
              (map (\<lambda>r. read_bar (row r) (Predicted_Diff r)) (take (Suc i) out)) = Inr (s, cv, pv) \<and>
            position s \<in> {0, 1, - 1} \<and>
            Portfolio_Value (out ! i) =
              (if position s = 0 then cash s
               else if position s = 1 then shares s * Close (row (out ! i))
               else cash s - shares s * Close (row (out ! i))))"
proof -
  let ?test = "filter (\<lambda>r. split_date \<le> date r) (fst (prepare_features df))"
  from assms obtain m s cv pv where
    sim: "simulate (initial_capital self) (init_state (initial_capital self))
           (map (\<lambda>r. read_bar r (predict m (features r))) ?test) = Inr (s, cv, pv)"
    and out: "out = map (\<lambda>(r, v). \<lparr>row = r, Predicted_Diff = predict m (features r),
                                Predicted_WMA_Next = WMA_3 r + predict m (features r),
                                Portfolio_Value = v\<rparr>) (zip ?test pv)"
    and len: "length pv = length ?test"
    by (rule run_Inr)
  let ?bars = "map (\<lambda>r. read_bar r (predict m (features r))) ?test"
  have rows: "map row out = ?test"
    unfolding out using len by (simp add: comp_def case_prod_unfold map_fst_zip)
  have lo: "length out = length ?test" unfolding out using len by simp
  have bars: "map (\<lambda>r. read_bar (row r) (Predicted_Diff r)) out = ?bars"
  proof (rule nth_equalityI)
    show "length (map (\<lambda>r. read_bar (row r) (Predicted_Diff r)) out) = length ?bars"
      using lo by simp
  next
    fix i assume "i < length (map (\<lambda>r. read_bar (row r) (Predicted_Diff r)) out)"
    then have "i < length ?test" using lo by simp
    then show "map (\<lambda>r. read_bar (row r) (Predicted_Diff r)) out ! i = ?bars ! i"
      unfolding out using len by simp
  qed
  have vals: "Portfolio_Value (out ! i) = pv ! i" and cl: "Close (row (out ! i)) = close (?bars ! i)"
    if "i < length out" for i
    using that lo len unfolding out by (simp_all add: read_bar_def)
  have "\<exists>s cv pv.
          simulate (initial_capital self) (init_state (initial_capital self))
            (map (\<lambda>r. read_bar (row r) (Predicted_Diff r)) (take (Suc i) out)) = Inr (s, cv, pv) \<and>
          position s \<in> {0, 1, - 1} \<and>
          Portfolio_Value (out ! i) =
            (if position s = 0 then cash s
             else if position s = 1 then shares s * Close (row (out ! i))
             else cash s - shares s * Close (row (out ! i)))" if i: "i < length out" for i
  proof -
    have ib: "i < length ?bars" using i lo by simp
    have tk: "map (\<lambda>r. read_bar (row r) (Predicted_Diff r)) (take (Suc i) out) = take (Suc i) ?bars"
      unfolding bars [symmetric] by (simp only: take_map)
    from simulate_value_at [OF sim ib] show ?thesis
      unfolding tk vals [OF i] cl [OF i] .
  qed
  with rows show ?thesis unfolding evaluation_set_def by blast
qed

text \<open>
  Claim C3. A run that returns gives one output row per evaluation row, in order, and
  the \<open>Portfolio_Value\<close> of row \<open>i\<close> is the valuation of the simulator state reached
  after the transitions of rows \<open>0\<close> to \<open>i\<close>: \<open>cash\<close> when flat, \<open>shares * close\<close> when
  long and \<open>cash - shares * close\<close> when short, with the close of row \<open>i\<close>.
\<close>

theorem portfolio_values_aligned:
  assumes "run fit predict self df split_date = (Inr out, self')"
  shows "map row out = evaluation_set df split_date \<and>
         (\<forall>i<length out. \<exists>s cv pv.
            simulate (initial_capital self) (init_state (initial_capital self))
              (map (\<lambda>r. read_bar (row r) (Predicted_Diff r)) (take (Suc i) out)) = Inr (s, cv, pv) \<and>
            position s \<in> {0, 1, - 1} \<and>
            Portfolio_Value (out ! i) =
              (if position s = 0 then cash s
               else if position s = 1 then shares s * Close (row (out ! i))
               else cash s - shares s * Close (row (out ! i))))"
  using assms by (rule run_values)

theorem portfolio_values_aligned_witness:
  "run still_fit still_predict \<lparr>initial_capital = 100000, model = ()\<rparr> (flat_bars 50 22) 20 =
     (Inr [\<lparr>row = cells (feature_frame (flat_bars 50 22) ! 20), Predicted_Diff = 0,
            Predicted_WMA_Next = 50, Portfolio_Value = 100000\<rparr>],
      \<lparr>initial_capital = 100000, model = ()\<rparr>) \<and>
   [cells (feature_frame (flat_bars 50 22) ! 20)] = evaluation_set (flat_bars 50 22) 20"
proof -
  have r: "run still_fit still_predict \<lparr>initial_capital = 100000, model = ()\<rparr> (flat_bars 50 22) 20 =
     (Inr [\<lparr>row = cells (feature_frame (flat_bars 50 22) ! 20), Predicted_Diff = 0,
            Predicted_WMA_Next = 50, Portfolio_Value = 100000\<rparr>],
      \<lparr>initial_capital = 100000, model = ()\<rparr>)"
    unfolding run_flat_bars by simp
  from portfolio_values_aligned [OF r] r show ?thesis by simp
qed

lemma transition_error:
  assumes "transition ic s b = Inl e"
  shows "e = ZeroDivisionError"
  using assms unfolding transition_cases by (auto split: if_splits)

lemma simulate_error:
  assumes "simulate ic (s, cv, pv) bars = Inl e" and "position s \<in> {0, 1, - 1}"
  shows "e = ZeroDivisionError"
  using assms
proof (induction bars arbitrary: s cv pv)
  case Nil
  then show ?case by simp
next
  case (Cons b bars)
  show ?case
  proof (cases "transition ic s b")
    case (Inl e')
    then have "loop_body ic (s, cv, pv) b = Inl e'" by (simp add: loop_body_def)
    with Cons.prems(1) have "e = e'" by simp
    with transition_error [OF Inl] show ?thesis by simp
  next
    case (Inr s1)
    from transition_position [OF Inr Cons.prems(2)] have p: "position s1 \<in> {0, 1, - 1}" .
    from valuation_known [OF p] obtain v where "valuation s1 b cv = Some v" by blast
    with Inr have "loop_body ic (s, cv, pv) b = Inr (s1, Some v, pv @ [v])"
      by (simp add: loop_body_def)
    with Cons.prems(1) have "simulate ic (s1, Some v, pv @ [v]) bars = Inl e" by simp
    from Cons.IH [OF this p] show ?thesis .
  qed
qed

lemma run_error:
  assumes "run fit predict self df split_date = (Inl e, self')"
    and "evaluation_set df split_date \<noteq> []"
    and "fit (model self) (map features (training_set df split_date))
           (map Target_Diff (training_set df split_date)) = Inr m"
  shows "e = ZeroDivisionError"
proof -
  let ?bars = "map (\<lambda>r. read_bar r (predict m (features r))) (evaluation_set df split_date)"
  from assms have "simulate (initial_capital self) (init_state (initial_capital self)) ?bars = Inl e"
    unfolding run_eq Let_def evaluation_set_def training_set_def
    by (auto split: sum.splits)
  then have "simulate (initial_capital self) (fst (init_state (initial_capital self)), None, []) ?bars = Inl e"
    by (simp add: init_state_def)
  then show ?thesis by (rule simulate_error) (simp add: init_state_def)
qed

lemma run_returns:
  assumes "evaluation_set df split_date \<noteq> []"
    and "fit (model self) (map features (training_set df split_date))
      (map Target_Diff (training_set df split_date)) = Inr m"
    and "list_all (\<lambda>r. Close r \<noteq> 0) (evaluation_set df split_date)"
  shows "\<exists>out. run fit predict self df split_date = (Inr out, self\<lparr>model := m\<rparr>) \<and>
             map row out = evaluation_set df split_date"
proof -
  let ?bars = "map (\<lambda>r. read_bar r (predict m (features r))) (evaluation_set df split_date)"
  from assms(3) have "\<forall>b \<in> set ?bars. close b \<noteq> 0"
    by (auto simp add: list_all_iff read_bar_def)
  from simulate_total_gen [OF this, of "fst (init_state (initial_capital self))" "initial_capital self" None "[]"]
  obtain r where "simulate (initial_capital self) (init_state (initial_capital self)) ?bars = Inr r"
    by (auto simp add: init_state_def)
  moreover obtain s cv pv where "r = (s, cv, pv)" by (cases r) auto
  ultimately have sim: "simulate (initial_capital self) (init_state (initial_capital self)) ?bars
      = Inr (s, cv, pv)" by simp
  have run: "run fit predict self df split_date =
      (Inr (map (\<lambda>(r, v). \<lparr>row = r, Predicted_Diff = predict m (features r),
                                Predicted_WMA_Next = WMA_3 r + predict m (features r),
                                Portfolio_Value = v\<rparr>) (zip (evaluation_set df split_date) pv)),
       self\<lparr>model := m\<rparr>)"
    unfolding run_eq Let_def
    using assms(1,2) sim unfolding evaluation_set_def training_set_def by simp
  from run_values [OF run] run show ?thesis by blast
qed

text \<open>
  Claim C5, as amended. The rows dated before the cutoff are the training set given to
  \<open>fit\<close> and the rows dated on or after it are the evaluation set the output rows come
  from. With an empty evaluation set the run raises \<open>ValueError\<close> before fitting and
  leaves the strategy as it was. With a non-empty one and a fit that returns, the run
  returns one row per evaluation row when every evaluation close is nonzero; the only
  error it can raise is \<open>ZeroDivisionError\<close>, at an entry on a bar whose close is 0.
\<close>

theorem split_and_failures:
  "(evaluation_set df split_date = [] \<longrightarrow>
      run fit predict self df split_date = (Inl (ValueError ''No test data available.''), self)) \<and>
   (evaluation_set df split_date \<noteq> [] \<and>
    fit (model self) (map features (training_set df split_date))
      (map Target_Diff (training_set df split_date)) = Inr m \<and>
    list_all (\<lambda>r. Close r \<noteq> 0) (evaluation_set df split_date) \<longrightarrow>
      (\<exists>out. run fit predict self df split_date = (Inr out, self\<lparr>model := m\<rparr>) \<and>
             map row out = evaluation_set df split_date)) \<and>
   (run fit predict self df split_date = (Inr out, self') \<longrightarrow>
      map row out = evaluation_set df split_date \<and>
      fit (model self) (map features (training_set df split_date))
        (map Target_Diff (training_set df split_date)) = Inr (model self')) \<and>
   (evaluation_set df split_date \<noteq> [] \<and>
    fit (model self) (map features (training_set df split_date))
      (map Target_Diff (training_set df split_date)) = Inr m \<and>
    run fit predict self df split_date = (Inl e, self') \<longrightarrow>
      e = ZeroDivisionError \<and> \<not> list_all (\<lambda>r. Close r \<noteq> 0) (evaluation_set df split_date))"
proof (intro conjI impI)
  assume "evaluation_set df split_date = []"
  then show "run fit predict self df split_date = (Inl (ValueError ''No test data available.''), self)"
    unfolding run_eq Let_def evaluation_set_def by simp
next
  assume a: "evaluation_set df split_date \<noteq> [] \<and>
    fit (model self) (map features (training_set df split_date))
      (map Target_Diff (training_set df split_date)) = Inr m \<and>
    list_all (\<lambda>r. Close r \<noteq> 0) (evaluation_set df split_date)"
  then show "\<exists>out. run fit predict self df split_date = (Inr out, self\<lparr>model := m\<rparr>) \<and>
             map row out = evaluation_set df split_date"
    by (intro run_returns) simp_all
next
  assume r: "run fit predict self df split_date = (Inr out, self')"
  from run_values [OF r]
  show "map row out = evaluation_set df split_date" by blast
  from r show "fit (model self) (map features (training_set df split_date))
        (map Target_Diff (training_set df split_date)) = Inr (model self')"
    unfolding training_set_def by (rule run_Inr) simp
next
  assume a: "evaluation_set df split_date \<noteq> [] \<and>
    fit (model self) (map features (training_set df split_date))
      (map Target_Diff (training_set df split_date)) = Inr m \<and>
    run fit predict self df split_date = (Inl e, self')"
  then show "e = ZeroDivisionError" by (intro run_error [of fit predict self df split_date e self' m]) simp_all
next
  assume a: "evaluation_set df split_date \<noteq> [] \<and>
    fit (model self) (map features (training_set df split_date))
      (map Target_Diff (training_set df split_date)) = Inr m \<and>
    run fit predict self df split_date = (Inl e, self')"
  show "\<not> list_all (\<lambda>r. Close r \<noteq> 0) (evaluation_set df split_date)"
  proof
    assume "list_all (\<lambda>r. Close r \<noteq> 0) (evaluation_set df split_date)"
    with a have "\<exists>out. run fit predict self df split_date = (Inr out, self\<lparr>model := m\<rparr>) \<and>
             map row out = evaluation_set df split_date"
      by (intro run_returns) simp_all
    with a show False by auto
  qed
qed


theorem split_and_failures_witness:
  "run still_fit still_predict \<lparr>initial_capital = 100000, model = ()\<rparr> (flat_bars 50 9) 5 =
     (Inl (ValueError ''No test data available.''), \<lparr>initial_capital = 100000, model = ()\<rparr>) \<and>
   evaluation_set (flat_bars 50 22) 20 \<noteq> [] \<and>
   (\<exists>out. run still_fit still_predict \<lparr>initial_capital = 100000, model = ()\<rparr> (flat_bars 50 22) 20 =
            (Inr out, \<lparr>initial_capital = 100000, model = ()\<rparr>) \<and>
          map row out = evaluation_set (flat_bars 50 22) 20) \<and>
   evaluation_set (flat_bars 0 22) 20 \<noteq> [] \<and>
   run still_fit still_predict \<lparr>initial_capital = 100000, model = ()\<rparr> (flat_bars 0 22) 20 =
     (Inl ZeroDivisionError, \<lparr>initial_capital = 100000, model = ()\<rparr>)"
proof -
  let ?self = "\<lparr>initial_capital = 100000, model = ()\<rparr>"
  have e9: "evaluation_set (flat_bars 50 9) 5 = []"
    using prepare_features_kept [OF flat_bars_defined, of 50 9] by (simp add: evaluation_set_def)
  have c: "Close (cells (feature_frame (flat_bars 50 22) ! 20)) = 50"
    by (rule flat_bars_row) simp_all
  have h: "evaluation_set (flat_bars 50 22) 20 \<noteq> [] \<and>
      still_fit (model ?self) (map features (training_set (flat_bars 50 22) 20))
        (map Target_Diff (training_set (flat_bars 50 22) 20)) = Inr () \<and>
      list_all (\<lambda>r. Close r \<noteq> 0) (evaluation_set (flat_bars 50 22) 20)"
    by (simp add: flat_bars_sets still_fit_def c)
  have z: "run still_fit still_predict ?self (flat_bars 0 22) 20 = (Inl ZeroDivisionError, ?self)"
    unfolding run_flat_bars by simp
  have hz: "evaluation_set (flat_bars 0 22) 20 \<noteq> [] \<and>
      still_fit (model ?self) (map features (training_set (flat_bars 0 22) 20))
        (map Target_Diff (training_set (flat_bars 0 22) 20)) = Inr ()"
    by (simp add: flat_bars_sets still_fit_def)
  from split_and_failures [where df = "flat_bars 50 9" and split_date = 5 and fit = still_fit
      and predict = still_predict and self = ?self] e9
  have w1: "run still_fit still_predict ?self (flat_bars 50 9) 5 =
     (Inl (ValueError ''No test data available.''), ?self)" by blast
  from split_and_failures [where df = "flat_bars 50 22" and split_date = 20 and fit = still_fit
      and predict = still_predict and self = ?self and m = "()"] h
  have w2: "\<exists>out. run still_fit still_predict ?self (flat_bars 50 22) 20 = (Inr out, ?self) \<and>
          map row out = evaluation_set (flat_bars 50 22) 20" by simp
  from split_and_failures [where df = "flat_bars 0 22" and split_date = 20 and fit = still_fit
      and predict = still_predict and self = ?self and m = "()" and e = ZeroDivisionError
      and self' = ?self] hz z
  have w3: "\<not> list_all (\<lambda>r. Close r \<noteq> 0) (evaluation_set (flat_bars 0 22) 20)" by blast
  from w1 w2 w3 h hz z show ?thesis by blast
qed

theorem per_bar_failure_counterexample:
  "evaluation_set (flat_bars 0 22) 20 \<noteq> [] \<and>
   fst (run still_fit still_predict \<lparr>initial_capital = 100000, model = ()\<rparr> (flat_bars 0 22) 20)
     = Inl ZeroDivisionError"
  unfolding run_flat_bars by (simp add: flat_bars_sets)

end
